theory Spec2Isabelle
  imports Complex_Main
begin

section \<open>Sturm-Liouville shooting solver (SturmLiouvilleSolver.py)\<close>

text \<open>
  A shallow embedding of the class \<^verbatim>\<open>SturmLiouvilleSolver\<close>. Conventions:
  \<^item> A Python float is a \<open>pyfloat\<close>: a real number, or one of the three special values
    \<open>+inf\<close>, \<open>-inf\<close>, \<open>nan\<close>. The two signed zeros are one value; the special values follow
    IEEE 754 as numpy applies it (an invalid operation gives \<open>nan\<close>, a division by zero gives
    an infinity, a comparison with \<open>nan\<close> is false).
  \<^item> The arithmetic on the eigenvalue parameter (the bracket, its midpoint, the next
    guess) decides between return and raise, and is rounded to binary64 as Python rounds
    it: to the nearest double, ties to the even one, overflow to an infinity
    (\<open>fadd64\<close>, \<open>fsub64\<close>, \<open>fdiv64\<close>). The arithmetic on the \<open>u\<close> values (the coefficients of
    the equation, the trapezoidal rule, the normalization) decides no branch of the program
    and is exact (\<open>fadd\<close>, \<open>fsub\<close>, \<open>fmul\<close>, \<open>fdiv\<close>): what is proved of it holds of the
    program up to rounding.
  \<^item> A raised exception is a value \<open>Inl e\<close> of a sum type.
  \<^item> Every method takes the solver object and returns, beside its result, the solver
    object it leaves behind.
  \<^item> \<^verbatim>\<open>scipy.integrate.solve_ivp\<close> is not part of the program: the integrator is a
    parameter \<open>ivp\<close> of every function that calls it.
  \<^item> Text written to standard output is not modelled.
\<close>

subsection \<open>Floats\<close>

datatype pyfloat = Fin real | PInf | NInf | NaN

fun is_finite :: "pyfloat \<Rightarrow> bool" where
  "is_finite (Fin a) = True"
| "is_finite PInf = False"
| "is_finite NInf = False"
| "is_finite NaN = False"

fun fpositive :: "pyfloat \<Rightarrow> bool" where
  "fpositive (Fin a) = (0 < a)"
| "fpositive PInf = True"
| "fpositive NInf = False"
| "fpositive NaN = False"

fun fiszero :: "pyfloat \<Rightarrow> bool" where
  "fiszero (Fin a) = (a = 0)"
| "fiszero PInf = False"
| "fiszero NInf = False"
| "fiszero NaN = False"

fun fneg :: "pyfloat \<Rightarrow> pyfloat" where
  "fneg (Fin a) = Fin (- a)"
| "fneg PInf = NInf"
| "fneg NInf = PInf"
| "fneg NaN = NaN"

fun fabs :: "pyfloat \<Rightarrow> pyfloat" where
  "fabs (Fin a) = Fin \<bar>a\<bar>"
| "fabs PInf = PInf"
| "fabs NInf = PInf"
| "fabs NaN = NaN"

fun fadd :: "pyfloat \<Rightarrow> pyfloat \<Rightarrow> pyfloat" where
  "fadd (Fin a) (Fin b) = Fin (a + b)"
| "fadd NaN b = NaN"
| "fadd a NaN = NaN"
| "fadd PInf NInf = NaN"
| "fadd NInf PInf = NaN"
| "fadd PInf b = PInf"
| "fadd a PInf = PInf"
| "fadd NInf b = NInf"
| "fadd a NInf = NInf"

definition fsub :: "pyfloat \<Rightarrow> pyfloat \<Rightarrow> pyfloat" where
  "fsub a b = fadd a (fneg b)"

fun fmul :: "pyfloat \<Rightarrow> pyfloat \<Rightarrow> pyfloat" where
  "fmul (Fin a) (Fin b) = Fin (a * b)"
| "fmul NaN b = NaN"
| "fmul a NaN = NaN"
| "fmul a b =
     (if fiszero a \<or> fiszero b then NaN
      else if fpositive a = fpositive b then PInf else NInf)"

fun fdiv :: "pyfloat \<Rightarrow> pyfloat \<Rightarrow> pyfloat" where
  "fdiv (Fin a) (Fin b) =
     (if b \<noteq> 0 then Fin (a / b)
      else if a = 0 then NaN
      else if 0 < a then PInf else NInf)"
| "fdiv NaN b = NaN"
| "fdiv a NaN = NaN"
| "fdiv (Fin a) b = Fin 0"
| "fdiv PInf (Fin b) = (if 0 \<le> b then PInf else NInf)"
| "fdiv NInf (Fin b) = (if 0 \<le> b then NInf else PInf)"
| "fdiv a b = NaN"

text \<open>\<^verbatim>\<open>a < b\<close>, \<^verbatim>\<open>a > b\<close> and \<^verbatim>\<open>a <= b\<close>; each is false when an operand is \<open>nan\<close>.\<close>

fun flt :: "pyfloat \<Rightarrow> pyfloat \<Rightarrow> bool" where
  "flt (Fin a) (Fin b) = (a < b)"
| "flt NaN b = False"
| "flt a NaN = False"
| "flt a NInf = False"
| "flt PInf b = False"
| "flt NInf b = True"
| "flt a PInf = True"

definition fgt :: "pyfloat \<Rightarrow> pyfloat \<Rightarrow> bool" where
  "fgt a b = flt b a"

fun fle :: "pyfloat \<Rightarrow> pyfloat \<Rightarrow> bool" where
  "fle (Fin a) (Fin b) = (a \<le> b)"
| "fle NaN b = False"
| "fle a NaN = False"
| "fle NInf b = True"
| "fle a PInf = True"
| "fle a NInf = False"
| "fle PInf b = False"

text \<open>\<^verbatim>\<open>a ** n\<close> for the literal exponents 2, 3 and 4 of the source.\<close>

fun fpow :: "pyfloat \<Rightarrow> nat \<Rightarrow> pyfloat" where
  "fpow a 0 = Fin 1"
| "fpow a (Suc 0) = a"
| "fpow a (Suc (Suc n)) = fmul a (fpow a (Suc n))"

text \<open>\<^verbatim>\<open>np.cos\<close>, \<^verbatim>\<open>np.sin\<close>, \<^verbatim>\<open>np.sqrt\<close> on a scalar.\<close>

fun np_cos :: "pyfloat \<Rightarrow> pyfloat" where
  "np_cos (Fin a) = Fin (cos a)"
| "np_cos PInf = NaN"
| "np_cos NInf = NaN"
| "np_cos NaN = NaN"

fun np_sin :: "pyfloat \<Rightarrow> pyfloat" where
  "np_sin (Fin a) = Fin (sin a)"
| "np_sin PInf = NaN"
| "np_sin NInf = NaN"
| "np_sin NaN = NaN"

fun np_sqrt :: "pyfloat \<Rightarrow> pyfloat" where
  "np_sqrt (Fin a) = (if a < 0 then NaN else Fin (sqrt a))"
| "np_sqrt PInf = PInf"
| "np_sqrt NInf = NaN"
| "np_sqrt NaN = NaN"

subsection \<open>Rounding to binary64\<close>

text \<open>The integer nearest to \<open>t\<close>; of two nearest ones, the even one.\<close>

definition round_half_even :: "real \<Rightarrow> int" where
  "round_half_even t =
     (let n = \<lfloor>t\<rfloor>; d = t - of_int n
      in if d < 1 / 2 then n else if 1 / 2 < d then n + 1 else if even n then n else n + 1)"

text \<open>
  The doubles near \<open>x > 0\<close> are the multiples of \<open>2 ^ q\<close>, where \<open>q\<close> is 52 below the binary
  exponent of \<open>x\<close>, and \<open>-1074\<close> in the subnormal range.
\<close>

definition ulp_exponent :: "real \<Rightarrow> int" where
  "ulp_exponent x = max (\<lfloor>log 2 x\<rfloor> - 52) (- 1074)"

definition round_unbounded :: "real \<Rightarrow> real" where
  "round_unbounded x =
     of_int (round_half_even (x / 2 powi ulp_exponent x)) * 2 powi ulp_exponent x"

text \<open>Rounding of \<open>x > 0\<close>: a result of \<open>2 ^ 1024\<close> or more overflows.\<close>

definition round64_pos :: "real \<Rightarrow> pyfloat" where
  "round64_pos x = (if 2 ^ 1024 \<le> round_unbounded x then PInf else Fin (round_unbounded x))"

definition round64 :: "real \<Rightarrow> pyfloat" where
  "round64 x =
     (if x = 0 then Fin 0
      else if 0 < x then round64_pos x
      else fneg (round64_pos (- x)))"

fun fround :: "pyfloat \<Rightarrow> pyfloat" where
  "fround (Fin a) = round64 a"
| "fround PInf = PInf"
| "fround NInf = NInf"
| "fround NaN = NaN"

text \<open>\<^verbatim>\<open>a + b\<close>, \<^verbatim>\<open>a - b\<close> and \<^verbatim>\<open>a / b\<close> as Python computes them on floats.\<close>

definition fadd64 :: "pyfloat \<Rightarrow> pyfloat \<Rightarrow> pyfloat" where
  "fadd64 a b = fround (fadd a b)"

definition fsub64 :: "pyfloat \<Rightarrow> pyfloat \<Rightarrow> pyfloat" where
  "fsub64 a b = fround (fsub a b)"

definition fdiv64 :: "pyfloat \<Rightarrow> pyfloat \<Rightarrow> pyfloat" where
  "fdiv64 a b = fround (fdiv a b)"

text \<open>The finite doubles: \<open>m * 2 ^ q\<close> with \<open>|m| < 2 ^ 53\<close> and \<open>-1074 \<le> q \<le> 971\<close>.\<close>

definition is_double :: "real \<Rightarrow> bool" where
  "is_double x \<longleftrightarrow>
     (\<exists>m q. x = of_int m * 2 powi q \<and> \<bar>m\<bar> < 2 ^ 53 \<and> - 1074 \<le> q \<and> q \<le> 971)"

subsection \<open>Exceptions\<close>

datatype py_error =
    ConvergenceError pyfloat int
      \<comment> \<open>\<^verbatim>\<open>ValueError("Failed to converge for lambda_guess = {guess} after {max_iterations} iterations")\<close>\<close>
  | IndexError
      \<comment> \<open>\<^verbatim>\<open>solution.y[0]\<close> or \<^verbatim>\<open>solution.y[1]\<close> on a \<open>y\<close> without that row, \<^verbatim>\<open>u[-1]\<close> on an
          empty array\<close>
  | NumpyValueError
      \<comment> \<open>a \<^verbatim>\<open>ValueError\<close> raised inside numpy: negative sample count, shapes that do not
          broadcast, a ragged list given to \<^verbatim>\<open>np.array\<close>\<close>
  | IntegratorRaised string
      \<comment> \<open>an exception raised inside \<^verbatim>\<open>solve_ivp\<close>\<close>

subsection \<open>The numpy functions the solver calls\<close>

text \<open>
  \<^verbatim>\<open>np.linspace(start, stop, num)\<close>: \<open>num\<close> evenly spaced samples. numpy computes
  \<^verbatim>\<open>arange(0, num) * step + start\<close> with \<^verbatim>\<open>step = (stop - start) / (num - 1)\<close>, and then
  stores \<open>stop\<close> itself as the last sample; for a single sample it computes
  \<^verbatim>\<open>0 * (stop - start) + start\<close>. A negative \<open>num\<close> raises.
\<close>

definition linspace :: "pyfloat \<Rightarrow> pyfloat \<Rightarrow> int \<Rightarrow> py_error + pyfloat list" where
  "linspace start stop num =
     (if num < 0 then Inl NumpyValueError
      else if num = 0 then Inr []
      else if num = 1 then Inr [fadd (fmul (Fin 0) (fsub stop start)) start]
      else
        let step = fdiv (fsub stop start) (Fin (of_int (num - 1)))
        in Inr (map (\<lambda>i. fadd (fmul (Fin (of_nat i)) step) start) [0..<nat (num - 1)] @ [stop]))"

text \<open>Elementwise operation on two one-dimensional arrays, with numpy's broadcasting.\<close>

definition broadcast2 :: "('a \<Rightarrow> 'b \<Rightarrow> 'c) \<Rightarrow> 'a list \<Rightarrow> 'b list \<Rightarrow> py_error + 'c list" where
  "broadcast2 f as bs =
     (if length as = length bs then Inr (map2 f as bs)
      else if length as = 1 then Inr (map (f (hd as)) bs)
      else if length bs = 1 then Inr (map (\<lambda>a. f a (hd bs)) as)
      else Inl NumpyValueError)"

text \<open>\<^verbatim>\<open>a[1:] - a[:-1]\<close> (\<^verbatim>\<open>np.diff\<close>) and \<^verbatim>\<open>a[1:] + a[:-1]\<close>.\<close>

definition np_diff :: "pyfloat list \<Rightarrow> pyfloat list" where
  "np_diff a = map2 fsub (tl a) (butlast a)"

definition adjacent_sums :: "pyfloat list \<Rightarrow> pyfloat list" where
  "adjacent_sums a = map2 fadd (tl a) (butlast a)"

fun np_sum :: "pyfloat list \<Rightarrow> pyfloat" where
  "np_sum [] = Fin 0"
| "np_sum (a # as) = fadd a (np_sum as)"

text \<open>\<^verbatim>\<open>np.trapezoid(y, x)\<close>: \<^verbatim>\<open>(diff(x) * (y[1:] + y[:-1]) / 2.0).sum()\<close>.\<close>

definition trapezoid :: "pyfloat list \<Rightarrow> pyfloat list \<Rightarrow> py_error + pyfloat" where
  "trapezoid y xs =
     (case broadcast2 fmul (np_diff xs) (adjacent_sums y) of
        Inl e \<Rightarrow> Inl e
      | Inr prods \<Rightarrow> Inr (np_sum (map (\<lambda>p. fdiv p (Fin 2)) prods)))"

text \<open>\<^verbatim>\<open>np.array(rows)\<close> on a list of one-dimensional arrays: the rows must have one length.\<close>

definition np_array2 :: "pyfloat list list \<Rightarrow> py_error + pyfloat list list" where
  "np_array2 rows =
     (if \<exists>r \<in> set rows. length r \<noteq> length (hd rows) then Inl NumpyValueError else Inr rows)"

text \<open>\<^verbatim>\<open>u[-1]\<close>.\<close>

definition last_elem :: "'a list \<Rightarrow> py_error + 'a" where
  "last_elem u = (if u = [] then Inl IndexError else Inr (last u))"

subsection \<open>The solver object and its constructor\<close>

text \<open>The fields \<^verbatim>\<open>self.x\<close> and \<^verbatim>\<open>self.m\<close> are named \<open>x_grid\<close> and \<open>m_mode\<close>.\<close>

record solver =
  x_start :: pyfloat
  x_end :: pyfloat
  num_points :: int
  x_grid :: "pyfloat list"
  m_mode :: int

definition init :: "pyfloat \<Rightarrow> pyfloat \<Rightarrow> int \<Rightarrow> py_error + solver" where
  "init xstart xend n =
     (case linspace xstart xend n of
        Inl e \<Rightarrow> Inl e
      | Inr grid \<Rightarrow>
          Inr \<lparr>x_start = xstart, x_end = xend, num_points = n, x_grid = grid, m_mode = 1\<rparr>)"





subsection \<open>equation_system\<close>

text \<open>The value of \<^verbatim>\<open>sin_x\<close> after the guard \<^verbatim>\<open>if abs(sin_x) < 1e-10: sin_x = 1e-10\<close>.\<close>

definition sin_floor :: pyfloat where
  "sin_floor = Fin (1 / 10 ^ 10)"

definition guarded_sin :: "pyfloat \<Rightarrow> pyfloat" where
  "guarded_sin t =
     (let sin_x = np_sin t in if flt (fabs sin_x) sin_floor then sin_floor else sin_x)"

definition coeff_p :: "pyfloat \<Rightarrow> pyfloat" where
  "coeff_p t = fmul (Fin (- (1 / 2))) (fpow (np_cos t) 4)"

definition coeff_q :: "pyfloat \<Rightarrow> pyfloat" where
  "coeff_q t =
     fmul (Fin (- (1 / 2)))
       (fdiv (fmul (fpow (np_cos t) 3) (np_cos (fmul (Fin 2) t))) (guarded_sin t))"

definition coeff_r :: "solver \<Rightarrow> pyfloat \<Rightarrow> pyfloat" where
  "coeff_r self t =
     fsub
       (fdiv (fmul (Fin (of_int ((m_mode self)\<^sup>2))) (fpow (np_cos t) 2))
             (fmul (Fin 2) (fpow (guarded_sin t) 2)))
       (fdiv (np_cos t) (guarded_sin t))"

definition equation_system ::
  "solver \<Rightarrow> pyfloat \<Rightarrow> pyfloat \<times> pyfloat \<Rightarrow> pyfloat \<Rightarrow> (pyfloat \<times> pyfloat) \<times> solver" where
  "equation_system self t y lambda_val =
     (case y of (u, du) \<Rightarrow>
        ((du,
          fdiv (fsub (fmul (fneg (coeff_q t)) du) (fmul (fsub (coeff_r self t) lambda_val) u))
               (coeff_p t)),
         self))"

subsection \<open>solve_ivp_with_shooting\<close>

text \<open>
  The object \<^verbatim>\<open>solve_ivp\<close> returns. \<^verbatim>\<open>solution.y\<close> is the list of the rows of values at the
  points of \<open>t_eval\<close> that the integration reached: the row of \<open>u\<close> and the row of \<open>u'\<close>. When
  the integration fails before the first point of \<open>t_eval\<close>, scipy leaves \<open>y\<close> the empty
  list. \<^verbatim>\<open>solution.success\<close> is false when the integration stopped before the end of the
  interval; the program never reads it.
\<close>

record ode_solution =
  success :: bool
  sol_y :: "pyfloat list list"

text \<open>\<^verbatim>\<open>y[i]\<close> for \<open>i = 0, 1\<close>.\<close>

definition row :: "pyfloat list list \<Rightarrow> nat \<Rightarrow> py_error + pyfloat list" where
  "row y i = (if i < length y then Inr (y ! i) else Inl IndexError)"

text \<open>
  The integrator, called as \<^verbatim>\<open>solve_ivp(fun, t_span, y0, method='RK45', t_eval)\<close>. It
  returns a solution object or raises.
\<close>

type_synonym integrator =
  "(pyfloat \<Rightarrow> pyfloat \<times> pyfloat \<Rightarrow> pyfloat \<times> pyfloat) \<Rightarrow> pyfloat \<times> pyfloat \<Rightarrow>
   pyfloat \<times> pyfloat \<Rightarrow> pyfloat list \<Rightarrow> py_error + ode_solution"

definition solve_ivp_with_shooting ::
  "integrator \<Rightarrow> solver \<Rightarrow> pyfloat \<Rightarrow> pyfloat \<Rightarrow>
   (py_error + pyfloat list \<times> pyfloat list) \<times> solver" where
  "solve_ivp_with_shooting ivp self lambda_val initial_slope =
     (let y0 = (Fin 0, initial_slope) in
      case ivp (\<lambda>t y. fst (equation_system self t y lambda_val))
               (x_start self, x_end self) y0 (x_grid self) of
        Inl e \<Rightarrow> (Inl e, self)
      | Inr solution \<Rightarrow>
          (case row (sol_y solution) 0 of
             Inl e \<Rightarrow> (Inl e, self)
           | Inr u \<Rightarrow>
               (case row (sol_y solution) 1 of
                  Inl e \<Rightarrow> (Inl e, self)
                | Inr du \<Rightarrow> (Inr (u, du), self))))"

subsection \<open>find_eigenvalue\<close>

text \<open>
  One pass through the body of \<^verbatim>\<open>for iteration in range(max_iterations)\<close>, from the
  bounds \<open>(lambda_left, lambda_right)\<close>: it returns from the function (\<open>Inl\<close> of the
  midpoint), or goes on with new bounds (\<open>Inr\<close>), or raises.
\<close>

definition bisection_body ::
  "integrator \<Rightarrow> pyfloat \<Rightarrow> solver \<Rightarrow> pyfloat \<times> pyfloat \<Rightarrow>
   (py_error + (pyfloat + pyfloat \<times> pyfloat)) \<times> solver" where
  "bisection_body ivp tolerance self bounds =
     (case bounds of (lambda_left, lambda_right) \<Rightarrow>
        let lambda_mid = fdiv64 (fadd64 lambda_left lambda_right) (Fin 2) in
        case solve_ivp_with_shooting ivp self lambda_mid (Fin 1) of
          (Inl e, self') \<Rightarrow> (Inl e, self')
        | (Inr (u, du), self') \<Rightarrow>
            (case last_elem u of
               Inl e \<Rightarrow> (Inl e, self')
             | Inr end_value \<Rightarrow>
                 if flt (fabs end_value) tolerance then (Inr (Inl lambda_mid), self')
                 else if fgt end_value (Fin 0) then (Inr (Inr (lambda_left, lambda_mid)), self')
                 else (Inr (Inr (lambda_mid, lambda_right)), self')))"

text \<open>
  The loop, by the number of passes left. \<open>Inr (Some l)\<close>: the body returned \<open>l\<close>;
  \<open>Inr None\<close>: the range is exhausted.
\<close>

fun bisection_loop ::
  "integrator \<Rightarrow> pyfloat \<Rightarrow> nat \<Rightarrow> solver \<Rightarrow> pyfloat \<times> pyfloat \<Rightarrow>
   (py_error + pyfloat option) \<times> solver" where
  "bisection_loop ivp tolerance 0 self bounds = (Inr None, self)"
| "bisection_loop ivp tolerance (Suc k) self bounds =
     (case bisection_body ivp tolerance self bounds of
        (Inl e, self') \<Rightarrow> (Inl e, self')
      | (Inr (Inl lambda_mid), self') \<Rightarrow> (Inr (Some lambda_mid), self')
      | (Inr (Inr bounds'), self') \<Rightarrow> bisection_loop ivp tolerance k self' bounds')"

definition find_eigenvalue ::
  "integrator \<Rightarrow> solver \<Rightarrow> pyfloat \<Rightarrow> pyfloat \<Rightarrow> int \<Rightarrow> (py_error + pyfloat) \<times> solver" where
  "find_eigenvalue ivp self lambda_guess tolerance max_iterations =
     (let lambda_left = fsub64 lambda_guess (Fin 5);
          lambda_right = fadd64 lambda_guess (Fin 5)
      in case bisection_loop ivp tolerance (nat max_iterations) self (lambda_left, lambda_right) of
           (Inl e, self') \<Rightarrow> (Inl e, self')
         | (Inr (Some lambda_mid), self') \<Rightarrow> (Inr lambda_mid, self')
         | (Inr None, self') \<Rightarrow> (Inl (ConvergenceError lambda_guess max_iterations), self'))"

text \<open>The default arguments \<^verbatim>\<open>tolerance=1e-6\<close> and \<^verbatim>\<open>max_iterations=100\<close>.\<close>

definition default_tolerance :: pyfloat where
  "default_tolerance = Fin (1 / 10 ^ 6)"

definition default_max_iterations :: int where
  "default_max_iterations = 100"

subsection \<open>find_multiple_eigenvalues\<close>

text \<open>The variables of the loop: \<open>(lambda_guess, eigenvalues, eigenfunctions)\<close>.\<close>

type_synonym eigen_state = "pyfloat \<times> pyfloat list \<times> pyfloat list list"

definition eigen_body ::
  "integrator \<Rightarrow> solver \<Rightarrow> eigen_state \<Rightarrow> (py_error + eigen_state) \<times> solver" where
  "eigen_body ivp self st =
     (case st of (lambda_guess, eigenvalues, eigenfunctions) \<Rightarrow>
        case find_eigenvalue ivp self lambda_guess default_tolerance default_max_iterations of
          (Inl e, self1) \<Rightarrow> (Inl e, self1)
        | (Inr lambda_val, self1) \<Rightarrow>
            (case solve_ivp_with_shooting ivp self1 lambda_val (Fin 1) of
               (Inl e, self2) \<Rightarrow> (Inl e, self2)
             | (Inr (u, du), self2) \<Rightarrow>
                 (case trapezoid (map (\<lambda>v. fpow v 2) u) (x_grid self2) of
                    Inl e \<Rightarrow> (Inl e, self2)
                  | Inr integral \<Rightarrow>
                      let norm = np_sqrt integral;
                          u' = map (\<lambda>v. fdiv v norm) u
                      in (Inr (fadd64 lambda_val (Fin 5),
                               eigenvalues @ [lambda_val],
                               eigenfunctions @ [u']), self2))))"

fun eigen_loop ::
  "integrator \<Rightarrow> nat \<Rightarrow> solver \<Rightarrow> eigen_state \<Rightarrow> (py_error + eigen_state) \<times> solver" where
  "eigen_loop ivp 0 self st = (Inr st, self)"
| "eigen_loop ivp (Suc k) self st =
     (case eigen_body ivp self st of
        (Inl e, self') \<Rightarrow> (Inl e, self')
      | (Inr st', self') \<Rightarrow> eigen_loop ivp k self' st')"

definition find_multiple_eigenvalues ::
  "integrator \<Rightarrow> solver \<Rightarrow> int \<Rightarrow> (py_error + pyfloat list \<times> pyfloat list list) \<times> solver" where
  "find_multiple_eigenvalues ivp self num_eigenvalues =
     (case eigen_loop ivp (nat num_eigenvalues) self (Fin 1, [], []) of
        (Inl e, self') \<Rightarrow> (Inl e, self')
      | (Inr (lambda_guess, eigenvalues, eigenfunctions), self') \<Rightarrow>
          (case np_array2 eigenfunctions of
             Inl e \<Rightarrow> (Inl e, self')
           | Inr arr \<Rightarrow> (Inr (eigenvalues, arr), self')))"

subsection \<open>Derived notions used in the statements\<close>

text \<open>The midpoint \<^verbatim>\<open>(lambda_left + lambda_right) / 2\<close> of a bracket.\<close>

definition midpoint :: "pyfloat \<Rightarrow> pyfloat \<Rightarrow> pyfloat" where
  "midpoint l r = fdiv64 (fadd64 l r) (Fin 2)"

text \<open>
  \<open>u(end)\<close> at \<open>lam\<close>: the value \<^verbatim>\<open>u[-1]\<close> of the shot
  \<^verbatim>\<open>self.solve_ivp_with_shooting(lam)\<close>, or the exception on the way to it.
\<close>

definition end_value :: "integrator \<Rightarrow> solver \<Rightarrow> pyfloat \<Rightarrow> py_error + pyfloat" where
  "end_value ivp self lam =
     (case fst (solve_ivp_with_shooting ivp self lam (Fin 1)) of
        Inl e \<Rightarrow> Inl e
      | Inr (u, du) \<Rightarrow> last_elem u)"

text \<open>The result of \<open>find_eigenvalue\<close> from the outcome of its loop.\<close>

definition after_loop :: "pyfloat \<Rightarrow> int \<Rightarrow> py_error + pyfloat option \<Rightarrow> py_error + pyfloat" where
  "after_loop lambda_guess max_iterations res =
     (case res of
        Inl e \<Rightarrow> Inl e
      | Inr (Some lambda_mid) \<Rightarrow> Inr lambda_mid
      | Inr None \<Rightarrow> Inl (ConvergenceError lambda_guess max_iterations))"

subsection \<open>Integrators and solvers for the concrete instances\<close>

text \<open>An integrator that reports success and gives \<open>u = c\<close> at every point of \<open>t_eval\<close>.\<close>

definition constant_ivp :: "pyfloat \<Rightarrow> integrator" where
  "constant_ivp c f t_span y0 ts =
     Inr \<lparr>success = True, sol_y = [map (\<lambda>t. c) ts, map (\<lambda>t. Fin 0) ts]\<rparr>"

text \<open>An integrator that returns rows given in advance, with a success flag given in advance.\<close>

definition replay_ivp :: "bool \<Rightarrow> pyfloat list \<Rightarrow> pyfloat list \<Rightarrow> integrator" where
  "replay_ivp ok us dus f t_span y0 ts = Inr \<lparr>success = ok, sol_y = [us, dus]\<rparr>"

text \<open>An integrator that raises.\<close>

definition raising_ivp :: integrator where
  "raising_ivp f t_span y0 ts = Inl (IntegratorRaised ''solve_ivp'')"

text \<open>A solver on the grid \<open>[0, 2]\<close>, as \<^verbatim>\<open>SturmLiouvilleSolver(0.0, 2.0, 2)\<close> builds it.\<close>

definition two_point_solver :: solver where
  "two_point_solver =
     \<lparr>x_start = Fin 0, x_end = Fin 2, num_points = 2, x_grid = [Fin 0, Fin 2], m_mode = 1\<rparr>"




text \<open>
  An integrator whose \<open>u\<close> is 0 at every grid point when \<open>lambda_val\<close> is 1 and \<open>c\<close>
  otherwise. It reads \<open>lambda_val\<close> off the right-hand side it is given, at \<open>t = 0\<close> and
  \<open>y = (1, 0)\<close>.
\<close>

definition picky_ivp :: "pyfloat \<Rightarrow> integrator" where
  "picky_ivp c f t_span y0 ts =
     Inr \<lparr>success = True,
          sol_y = [map (\<lambda>t. if snd (f (Fin 0) (Fin 1, Fin 0)) = Fin (10 ^ 20 - 2 * 10 ^ 10 - 2)
                             then Fin 0 else c) ts,
                   map (\<lambda>t. Fin 0) ts]\<rparr>"

text \<open>
  Integrations that failed: the success flag is false and \<open>u\<close> holds a \<open>nan\<close>. The second one
  ends on \<open>u = 0\<close>.
\<close>

definition failed_ivp :: integrator where
  "failed_ivp = replay_ivp False [NaN] [NaN]"

definition failed_ivp2 :: integrator where
  "failed_ivp2 = replay_ivp False [NaN, Fin 0] [NaN, NaN]"

text \<open>
  An integration that failed before the first point of \<open>t_eval\<close>: \<^verbatim>\<open>solution.y\<close> is the empty
  list.
\<close>

definition empty_ivp :: integrator where
  "empty_ivp f t_span y0 ts = Inr \<lparr>success = False, sol_y = []\<rparr>"



section \<open>Rounding to binary64\<close>

subsection \<open>Round half even\<close>

lemma rhe_of_int [simp]: "round_half_even (of_int k) = k"
  by (simp add: round_half_even_def)

lemma rhe_bounds: "\<bar>t - of_int (round_half_even t)\<bar> \<le> 1 / 2"
  unfolding round_half_even_def Let_def by (auto; linarith)

lemma rhe_eq_cases:
  "round_half_even t = \<lfloor>t\<rfloor> \<or> round_half_even t = \<lfloor>t\<rfloor> + 1"
  unfolding round_half_even_def Let_def by auto

lemma rhe_mono:
  assumes "s \<le> t"
  shows "round_half_even s \<le> round_half_even t"
proof (rule ccontr)
  assume "\<not> round_half_even s \<le> round_half_even t"
  then have gt: "round_half_even t + 1 \<le> round_half_even s" by simp
  then have gt': "of_int (round_half_even t) + 1 \<le> (of_int (round_half_even s) :: real)"
    by (metis of_int_1 of_int_add of_int_le_iff)
  from rhe_bounds [of s] rhe_bounds [of t] gt' assms
  have "s = t" by linarith
  with gt show False by simp
qed

lemma rhe_ge: "of_int k \<le> t \<Longrightarrow> k \<le> round_half_even t"
  using rhe_mono [of "of_int k" t] by simp

lemma rhe_le: "t \<le> of_int k \<Longrightarrow> round_half_even t \<le> k"
  using rhe_mono [of t "of_int k"] by simp


subsection \<open>Exponents\<close>

lemma powr_powi: "(2::real) powr (of_int n) = 2 powi n"
  by (simp add: powr_real_of_int power_int_def power_one_over inverse_eq_divide)

lemma powi_as_int:
  assumes "0 \<le> n"
  shows "(2::real) powi n = of_int (2 ^ nat n)"
  using assms by (simp add: power_int_def)

lemma powi_pos [simp]: "0 < (2::real) powi n"
  by (simp add: power_int_def)

lemma powi_split: "(2::real) powi k = 2 powi (k - q) * 2 powi q"
  by (simp flip: power_int_add)

lemma binade_bounds:
  assumes "0 < x"
  shows "2 powi \<lfloor>log 2 x\<rfloor> \<le> x" and "x < 2 powi (\<lfloor>log 2 x\<rfloor> + 1)"
  using floor_log_eq_powr_iff [of x 2 "\<lfloor>log 2 x\<rfloor>"] assms powr_powi [of "\<lfloor>log 2 x\<rfloor>"]
    powr_powi [of "\<lfloor>log 2 x\<rfloor> + 1"]
  by simp_all


lemma binade_ge:
  assumes "2 powi k \<le> x"
  shows "k \<le> \<lfloor>log 2 x\<rfloor>"
proof (rule ccontr)
  assume "\<not> k \<le> \<lfloor>log 2 x\<rfloor>"
  then have "\<lfloor>log 2 x\<rfloor> + 1 \<le> k" by simp
  then have "(2::real) powi (\<lfloor>log 2 x\<rfloor> + 1) \<le> 2 powi k"
    by (intro power_int_increasing) simp_all
  moreover have "0 < x" using assms powi_pos [of k] by linarith
  ultimately show False using binade_bounds(2) [of x] assms by linarith
qed

lemma binade_lt:
  assumes "0 < x" and "x < 2 powi k"
  shows "\<lfloor>log 2 x\<rfloor> < k"
proof (rule ccontr)
  assume "\<not> \<lfloor>log 2 x\<rfloor> < k"
  then have "(2::real) powi k \<le> 2 powi \<lfloor>log 2 x\<rfloor>"
    by (intro power_int_increasing) simp_all
  then show False using binade_bounds(1) [OF assms(1)] assms(2) by linarith
qed

lemma binade_mono:
  assumes "0 < x" and "x \<le> y"
  shows "\<lfloor>log 2 x\<rfloor> \<le> \<lfloor>log 2 y\<rfloor>"
  using binade_ge [of "\<lfloor>log 2 x\<rfloor>" y] binade_bounds(1) [OF assms(1)] assms(2) by linarith

lemma ulp_exponent_mono:
  assumes "0 < x" and "x \<le> y"
  shows "ulp_exponent x \<le> ulp_exponent y"
  using binade_mono [OF assms] by (simp add: ulp_exponent_def)

lemma ulp_exponent_ge [simp]: "- 1074 \<le> ulp_exponent x"
  by (simp add: ulp_exponent_def)

subsection \<open>Bounds by powers of two\<close>

lemma round_unbounded_ge_pow:
  assumes "2 powi k \<le> x" and "ulp_exponent x \<le> k"
  shows "2 powi k \<le> round_unbounded x"
proof -
  let ?q = "ulp_exponent x"
  have "(2::real) powi k = of_int (2 ^ nat (k - ?q)) * 2 powi ?q"
    using powi_split [of k ?q] powi_as_int [of "k - ?q"] assms(2) by simp
  moreover have "of_int (2 ^ nat (k - ?q)) \<le> x / 2 powi ?q"
    using assms(1) calculation by (simp add: field_simps)
  then have "2 ^ nat (k - ?q) \<le> round_half_even (x / 2 powi ?q)"
    by (rule rhe_ge)
  then have "(of_int (2 ^ nat (k - ?q)) :: real) \<le> of_int (round_half_even (x / 2 powi ?q))"
    using of_int_le_iff by blast
  ultimately show ?thesis
    by (simp add: round_unbounded_def)
qed

lemma round_unbounded_le_pow:
  assumes "x \<le> 2 powi k" and "ulp_exponent x \<le> k"
  shows "round_unbounded x \<le> 2 powi k"
proof -
  let ?q = "ulp_exponent x"
  have e: "(2::real) powi k = of_int (2 ^ nat (k - ?q)) * 2 powi ?q"
    using powi_split [of k ?q] powi_as_int [of "k - ?q"] assms(2) by simp
  have "x / 2 powi ?q \<le> of_int (2 ^ nat (k - ?q))"
    using assms(1) e by (simp add: field_simps)
  then have "round_half_even (x / 2 powi ?q) \<le> 2 ^ nat (k - ?q)"
    by (rule rhe_le)
  then have "(of_int (round_half_even (x / 2 powi ?q)) :: real) \<le> of_int (2 ^ nat (k - ?q))"
    using of_int_le_iff by blast
  then show ?thesis
    using e by (simp add: round_unbounded_def)
qed

lemma round_unbounded_exact:
  assumes "x = of_int m * 2 powi j" and "ulp_exponent x \<le> j"
  shows "round_unbounded x = x"
proof -
  define q where "q = ulp_exponent x"
  define c where "c = nat (j - q)"
  have jq: "(2::real) powi j = 2 ^ c * 2 powi q"
    using powi_split [of j q] powi_as_int [of "j - q"] assms(2) by (simp add: q_def c_def)
  have "x / 2 powi q = of_int m * 2 ^ c"
    unfolding assms(1) jq by simp
  also have "\<dots> = of_int (m * 2 ^ c)" by simp
  finally have d: "x / 2 powi q = of_int (m * 2 ^ c)" .
  have "round_unbounded x = of_int (round_half_even (x / 2 powi q)) * 2 powi q"
    by (simp add: round_unbounded_def q_def)
  also have "\<dots> = of_int (m * 2 ^ c) * 2 powi q"
    by (simp only: d rhe_of_int)
  also have "\<dots> = x"
    unfolding assms(1) jq by simp
  finally show ?thesis .
qed


subsection \<open>Rounding is monotone\<close>

lemma ulp_exponent_le_binade:
  assumes "- 1074 < ulp_exponent x"
  shows "ulp_exponent x = \<lfloor>log 2 x\<rfloor> - 52"
  using assms by (simp add: ulp_exponent_def max_def split: if_splits)

lemma round_unbounded_mono:
  assumes "0 < x" and "x \<le> y"
  shows "round_unbounded x \<le> round_unbounded y"
proof (cases "ulp_exponent x = ulp_exponent y")
  case True
  have "x / 2 powi ulp_exponent y \<le> y / 2 powi ulp_exponent y"
    using assms(2) by (simp add: divide_right_mono)
  then have "round_half_even (x / 2 powi ulp_exponent y)
      \<le> round_half_even (y / 2 powi ulp_exponent y)"
    by (rule rhe_mono)
  then have "(of_int (round_half_even (x / 2 powi ulp_exponent y)) :: real)
      \<le> of_int (round_half_even (y / 2 powi ulp_exponent y))"
    using of_int_le_iff by blast
  then show ?thesis
    by (simp add: round_unbounded_def True)
next
  case False
  with ulp_exponent_mono [OF assms] have lt: "ulp_exponent x < ulp_exponent y" by simp
  let ?e = "\<lfloor>log 2 y\<rfloor>"
  have y0: "0 < y" using assms by simp
  have qy: "ulp_exponent y = ?e - 52"
    using lt ulp_exponent_ge [of x] by (intro ulp_exponent_le_binade) linarith
  have ex: "\<lfloor>log 2 x\<rfloor> - 52 \<le> ulp_exponent x"
    by (simp add: ulp_exponent_def)
  with lt qy have "\<lfloor>log 2 x\<rfloor> + 1 \<le> ?e" by simp
  then have "(2::real) powi (\<lfloor>log 2 x\<rfloor> + 1) \<le> 2 powi ?e"
    by (intro power_int_increasing) simp_all
  with binade_bounds(2) [OF assms(1)] have xle: "x \<le> 2 powi ?e" by simp
  have "round_unbounded x \<le> 2 powi ?e"
    using xle lt qy by (intro round_unbounded_le_pow) simp_all
  also have "\<dots> \<le> round_unbounded y"
    using binade_bounds(1) [OF y0] qy by (intro round_unbounded_ge_pow) simp_all
  finally show ?thesis .
qed

lemma round_unbounded_nonneg:
  assumes "0 < x"
  shows "0 \<le> round_unbounded x"
proof -
  have "(of_int 0 :: real) \<le> x / 2 powi ulp_exponent x"
    using assms by simp
  then have "0 \<le> round_half_even (x / 2 powi ulp_exponent x)"
    by (rule rhe_ge)
  then show ?thesis
    by (simp add: round_unbounded_def)
qed

lemma round64_pos_mono:
  assumes "0 < x" and "x \<le> y"
  shows "fle (round64_pos x) (round64_pos y)"
  using round_unbounded_mono [OF assms] by (simp add: round64_pos_def)

lemma round64_pos_nonneg:
  assumes "0 < x"
  shows "fle (Fin 0) (round64_pos x)"
  using round_unbounded_nonneg [OF assms] by (simp add: round64_pos_def)

lemma fle_fneg: "fle (fneg a) (fneg b) = fle b a"
  by (cases a; cases b) simp_all

lemma fle_trans: "fle a b \<Longrightarrow> fle b c \<Longrightarrow> fle a c"
  by (cases a; cases b; cases c) simp_all

lemma round64_mono:
  assumes "x \<le> y"
  shows "fle (round64 x) (round64 y)"
proof -
  consider "0 < x" | "x = 0" | "x < 0" by linarith
  then show ?thesis
  proof cases
    case 1
    with assms round64_pos_mono [of x y] show ?thesis
      by (simp add: round64_def)
  next
    case 2
    with assms round64_pos_nonneg [of y] show ?thesis
      by (cases "y = 0") (simp_all add: round64_def)
  next
    case 3
    have nx: "fle (round64 x) (Fin 0)"
      using 3 round64_pos_nonneg [of "- x"] fle_fneg [of "round64_pos (- x)" "Fin 0"]
      by (simp add: round64_def)
    consider "0 < y" | "y = 0" | "y < 0" by linarith
    then show ?thesis
    proof cases
      case 1
      with round64_pos_nonneg [of y] have "fle (Fin 0) (round64 y)"
        by (simp add: round64_def)
      with nx show ?thesis by (rule fle_trans)
    next
      case 2
      with nx show ?thesis by (simp add: round64_def)
    next
      case y: 3
      have "fle (round64_pos (- y)) (round64_pos (- x))"
        using y assms by (intro round64_pos_mono) simp_all
      then show ?thesis
        using 3 y by (simp add: round64_def fle_fneg)
    qed
  qed
qed

subsection \<open>The doubles\<close>

lemma ulp_exponent_double:
  assumes "x = of_int m * 2 powi j" and "0 < m" and "m < 2 ^ 53" and "- 1074 \<le> j"
  shows "ulp_exponent x \<le> j"
proof -
  have x0: "0 < x" using assms(1,2) by simp
  have "of_int m < (2::real) ^ 53"
    using assms(3) by (metis of_int_less_iff of_int_numeral of_int_power)
  then have "x < 2 ^ 53 * 2 powi j"
    using assms(1) by simp
  also have "\<dots> = 2 powi (53 + j)"
    by (simp add: power_int_add)
  finally have "\<lfloor>log 2 x\<rfloor> < 53 + j"
    using x0 by (intro binade_lt)
  with assms(4) show ?thesis
    by (simp add: ulp_exponent_def)
qed

lemma round64_pos_exact:
  assumes "x = of_int m * 2 powi j" and "0 < m" and "m < 2 ^ 53" and "- 1074 \<le> j" and "j \<le> 971"
  shows "round64_pos x = Fin x"
proof -
  have "round_unbounded x = x"
    using assms(1) ulp_exponent_double [OF assms(1-4)] by (rule round_unbounded_exact)
  moreover have "x < 2 ^ 1024"
  proof -
    have "of_int m < (2::real) ^ 53"
      using assms(3) by (metis of_int_less_iff of_int_numeral of_int_power)
    moreover have "(2::real) powi j \<le> 2 powi 971"
      using assms(5) by (intro power_int_increasing) simp_all
    ultimately have "x < 2 ^ 53 * 2 powi 971"
      unfolding assms(1) using assms(2)
      by (intro mult_less_le_imp_less) simp_all
    then show ?thesis by simp
  qed
  ultimately show ?thesis
    by (simp add: round64_pos_def)
qed

lemma round64_exact:
  assumes "is_double x"
  shows "round64 x = Fin x"
proof -
  from assms obtain m j where x: "x = of_int m * 2 powi j"
    and m: "\<bar>m\<bar> < 2 ^ 53" and j: "- 1074 \<le> j" "j \<le> 971"
    unfolding is_double_def by blast
  consider "0 < m" | "m = 0" | "m < 0" by linarith
  then show ?thesis
  proof cases
    case 1
    then have "0 < x" using x by simp
    with round64_pos_exact [OF x 1 _ j] m 1 show ?thesis
      by (simp add: round64_def)
  next
    case 2
    with x show ?thesis by (simp add: round64_def)
  next
    case 3
    then have x0: "x < 0" using x by (simp add: mult_neg_pos)
    have "- x = of_int (- m) * 2 powi j" using x by simp
    from round64_pos_exact [OF this _ _ j] m 3
    have "round64_pos (- x) = Fin (- x)" by simp
    with x0 show ?thesis by (simp add: round64_def)
  qed
qed


lemma is_doubleI:
  assumes "x = of_int m * 2 powi q" and "\<bar>m\<bar> < 2 ^ 53" and "- 1074 \<le> q" and "q \<le> 971"
  shows "is_double x"
  unfolding is_double_def using assms by blast

lemma is_double_neg: "is_double (- x) = is_double x"
proof -
  have "is_double (- x)" if "is_double x" for x
  proof -
    from that obtain m j where "x = of_int m * 2 powi j" "\<bar>m\<bar> < 2 ^ 53" "- 1074 \<le> j" "j \<le> 971"
      unfolding is_double_def by blast
    then have "- x = of_int (- m) * 2 powi j \<and> \<bar>- m\<bar> < 2 ^ 53 \<and> - 1074 \<le> j \<and> j \<le> 971"
      by simp
    then show ?thesis unfolding is_double_def by blast
  qed
  from this [of x] this [of "- x"] show ?thesis by auto
qed

lemma is_double_0 [simp]: "is_double 0"
  by (rule is_doubleI [of _ 0 0]) simp_all

lemma round64_pos_is_double:
  assumes "0 < x" and "round64_pos x = Fin y"
  shows "is_double y"
proof -
  define q where "q = ulp_exponent x"
  define n where "n = round_half_even (x / 2 powi q)"
  define e where "e = \<lfloor>log 2 x\<rfloor>"
  have ru: "round_unbounded x = of_int n * 2 powi q"
    by (simp add: round_unbounded_def q_def n_def)
  from assms(2) have y: "y = of_int n * 2 powi q" and small: "y < 2 powi 1024"
    by (simp_all add: round64_pos_def ru split: if_splits)
  have q_lo: "- 1074 \<le> q" by (simp add: q_def)
  have q_e: "e - 52 \<le> q" by (simp add: q_def e_def ulp_exponent_def)
  have n0: "0 \<le> n"
    unfolding n_def using assms(1) by (intro rhe_ge) simp
  have "x / 2 powi q < 2 powi (e + 1) / 2 powi q"
    using binade_bounds(2) [OF assms(1)] by (simp add: divide_strict_right_mono e_def)
  also have "\<dots> = 2 powi (e + 1 - q)"
    by (simp add: power_int_diff)
  also have "\<dots> \<le> 2 powi 53"
    using q_e by (intro power_int_increasing) simp_all
  finally have "x / 2 powi q \<le> of_int (2 ^ 53)" by simp
  then have n53: "n \<le> 2 ^ 53"
    unfolding n_def by (rule rhe_le)
  show ?thesis
  proof (cases "n = 2 ^ 53")
    case True
    have y': "y = 2 powi (53 + q)"
      unfolding y True by (simp add: power_int_add)
    have "q \<le> 970"
    proof (rule ccontr)
      assume "\<not> q \<le> 970"
      then have "(2::real) powi 1024 \<le> 2 powi (53 + q)"
        by (intro power_int_increasing) simp_all
      with y' small show False by linarith
    qed
    then have 1: "q + 1 \<le> 971" "- 1074 \<le> q + 1" using q_lo by simp_all
    have 2: "y = of_int (2 ^ 52) * 2 powi (q + 1)"
      unfolding y' by (simp add: power_int_add)
    have 3: "\<bar>2 ^ 52 :: int\<bar> < 2 ^ 53" by simp
    from 1 2 3 show ?thesis
      unfolding is_double_def by blast
  next
    case False
    with n53 n0 have n: "\<bar>n\<bar> < 2 ^ 53" by linarith
    have "q \<le> 971"
    proof (rule ccontr)
      assume "\<not> q \<le> 971"
      then have q972: "972 \<le> q" by simp
      then have "- 1074 < ulp_exponent x" by (simp add: q_def)
      then have qe: "q = e - 52"
        unfolding q_def e_def by (rule ulp_exponent_le_binade)
      with q972 have e: "1024 \<le> e" by simp
      have "(2::real) powi 1024 \<le> 2 powi e"
        using e by (intro power_int_increasing) simp_all
      also have "\<dots> \<le> round_unbounded x"
      proof (rule round_unbounded_ge_pow)
        show "2 powi e \<le> x" using binade_bounds(1) [OF assms(1)] by (simp add: e_def)
        show "ulp_exponent x \<le> e" using qe by (simp add: q_def)
      qed
      also have "\<dots> = y"
        by (simp only: y ru)
      finally show False using small by linarith
    qed
    with y n q_lo show ?thesis
      unfolding is_double_def by blast
  qed
qed

lemma round64_is_double:
  assumes "round64 x = Fin y"
  shows "is_double y"
proof -
  consider "0 < x" | "x = 0" | "x < 0" by linarith
  then show ?thesis
  proof cases
    case 1
    with assms round64_pos_is_double [of x y] show ?thesis
      by (simp add: round64_def)
  next
    case 2
    with assms show ?thesis by (auto simp: round64_def)
  next
    case 3
    with assms have "fneg (round64_pos (- x)) = Fin y"
      by (simp add: round64_def)
    then have "round64_pos (- x) = Fin (- y)"
      by (cases "round64_pos (- x)") simp_all
    with 3 round64_pos_is_double [of "- x" "- y"] show ?thesis
      by (simp add: is_double_neg)
  qed
qed

lemma is_double_twice:
  assumes "is_double x" and "\<bar>x\<bar> \<le> 2 ^ 1022"
  shows "is_double (2 * x)"
proof -
  from assms(1) obtain m j where x: "x = of_int m * 2 powi j"
    and m: "\<bar>m\<bar> < 2 ^ 53" and j: "- 1074 \<le> j" "j \<le> 971"
    unfolding is_double_def by blast
  show ?thesis
  proof (cases "j = 971")
    case False
    have "2 * x = of_int m * 2 powi (j + 1)"
      using x by (simp add: power_int_add)
    with m j False show ?thesis
      by (intro is_doubleI [of _ m "j + 1"]) simp_all
  next
    case True
    have "\<bar>of_int m\<bar> * (2::real) powi 971 \<le> 2 ^ 1022"
      using assms(2) x True by (simp add: abs_mult)
    then have "\<bar>of_int m :: real\<bar> \<le> 2 ^ 1022 / 2 powi 971"
      by (simp add: field_simps)
    also have "\<dots> = 2 ^ 51" by simp
    finally have "\<bar>m\<bar> \<le> 2 ^ 51"
      by (metis of_int_abs of_int_le_iff of_int_numeral of_int_power)
    then have "\<bar>2 * m\<bar> < 2 ^ 53" by simp
    moreover have "2 * x = of_int (2 * m) * 2 powi 971"
      using x True by simp
    ultimately show ?thesis
      by (intro is_doubleI [of _ "2 * m" 971]) simp_all
  qed
qed

subsection \<open>Brackets and midpoints\<close>

lemma fle_between:
  assumes "fle (Fin a) s" and "fle s (Fin b)"
  shows "\<exists>x. s = Fin x \<and> a \<le> x \<and> x \<le> b"
  using assms by (cases s) simp_all

lemma is_double_of_int:
  assumes "\<bar>k\<bar> < 2 ^ 53"
  shows "is_double (of_int k)"
  using assms by (intro is_doubleI [of _ k 0]) simp_all

lemma round64_of_int:
  assumes "\<bar>k\<bar> < 2 ^ 53"
  shows "round64 (of_int k) = Fin (of_int k)"
  using is_double_of_int [OF assms] by (rule round64_exact)


lemma midpoint_Fin:
  "midpoint (Fin l) (Fin r) = fround (fdiv (round64 (l + r)) (Fin 2))"
  by (simp add: midpoint_def fadd64_def fdiv64_def)

lemma midpoint_between:
  assumes "is_double l" and "is_double r" and "l \<le> r"
    and "\<bar>l\<bar> \<le> 2 ^ 1022" and "\<bar>r\<bar> \<le> 2 ^ 1022"
  shows "\<exists>x. midpoint (Fin l) (Fin r) = Fin x \<and> l \<le> x \<and> x \<le> r \<and> is_double x"
proof -
  have "fle (round64 (2 * l)) (round64 (l + r))"
    using assms(3) by (intro round64_mono) simp
  moreover have "fle (round64 (l + r)) (round64 (2 * r))"
    using assms(3) by (intro round64_mono) simp
  moreover have "round64 (2 * l) = Fin (2 * l)"
    using assms(1,4) by (intro round64_exact is_double_twice)
  moreover have "round64 (2 * r) = Fin (2 * r)"
    using assms(2,5) by (intro round64_exact is_double_twice)
  ultimately obtain s where s: "round64 (l + r) = Fin s" "2 * l \<le> s" "s \<le> 2 * r"
    using fle_between [of "2 * l" "round64 (l + r)" "2 * r"] by auto
  have m: "midpoint (Fin l) (Fin r) = round64 (s / 2)"
    by (simp add: midpoint_Fin s(1))
  have "fle (round64 l) (round64 (s / 2))"
    using s(2) by (intro round64_mono) simp
  moreover have "fle (round64 (s / 2)) (round64 r)"
    using s(3) by (intro round64_mono) simp
  ultimately obtain x where x: "round64 (s / 2) = Fin x" "l \<le> x" "x \<le> r"
    using fle_between [of l "round64 (s / 2)" r] round64_exact [OF assms(1)]
      round64_exact [OF assms(2)] by auto
  from round64_is_double [OF x(1)] m x show ?thesis by simp
qed

text \<open>Sums and midpoints of small integers are exact.\<close>

lemma round64_small:
  "round64 1 = Fin 1" "round64 2 = Fin 2" "round64 6 = Fin 6" "round64 (- 4) = Fin (- 4)"
  "round64 11 = Fin 11" "round64 12 = Fin 12" "round64 17 = Fin 17"
  using round64_of_int [of 1] round64_of_int [of 2] round64_of_int [of 6]
    round64_of_int [of "- 4"] round64_of_int [of 11] round64_of_int [of 12]
    round64_of_int [of 17]
  by simp_all

lemma bracket_1: "fsub64 (Fin 1) (Fin 5) = Fin (- 4)" "fadd64 (Fin 1) (Fin 5) = Fin 6"
  by (simp_all add: fsub64_def fadd64_def fsub_def round64_small)

lemma bracket_6: "fsub64 (Fin 6) (Fin 5) = Fin 1" "fadd64 (Fin 6) (Fin 5) = Fin 11"
  by (simp_all add: fsub64_def fadd64_def fsub_def round64_small)

lemma midpoint_small:
  "midpoint (Fin (- 4)) (Fin 6) = Fin 1" "midpoint (Fin 1) (Fin 11) = Fin 6"
  by (simp_all add: midpoint_Fin round64_small)

section \<open>No method writes to the solver object\<close>

lemma equation_system_frame: "snd (equation_system self t y lambda_val) = self"
  by (simp add: equation_system_def split: prod.splits)

lemma solve_ivp_with_shooting_frame:
  "snd (solve_ivp_with_shooting ivp self lambda_val slope) = self"
  by (simp add: solve_ivp_with_shooting_def Let_def split: sum.splits)

lemma bisection_body_frame: "snd (bisection_body ivp tol self bounds) = self"
proof -
  obtain l r where b: "bounds = (l, r)" by (cases bounds)
  obtain res where
    res: "solve_ivp_with_shooting ivp self (fdiv64 (fadd64 l r) (Fin 2)) (Fin 1) = (res, self)"
    using solve_ivp_with_shooting_frame [of ivp self "fdiv64 (fadd64 l r) (Fin 2)" "Fin 1"]
    by (metis prod.collapse)
  show ?thesis
    using res by (simp add: b bisection_body_def Let_def split: sum.splits prod.splits)
qed

lemma bisection_loop_frame: "snd (bisection_loop ivp tol k self bounds) = self"
proof (induction k arbitrary: bounds)
  case 0
  show ?case by simp
next
  case (Suc k)
  obtain r s where rs: "bisection_body ivp tol self bounds = (r, s)"
    by (cases "bisection_body ivp tol self bounds")
  have s: "s = self"
    using bisection_body_frame [of ivp tol self bounds] rs by simp
  show ?case
    using rs s Suc.IH by (simp split: sum.splits)
qed

lemma find_eigenvalue_frame: "snd (find_eigenvalue ivp self guess tol maxit) = self"
proof -
  obtain r s where rs: "bisection_loop ivp tol (nat maxit) self
      (fsub64 guess (Fin 5), fadd64 guess (Fin 5)) = (r, s)"
    by (cases "bisection_loop ivp tol (nat maxit) self (fsub64 guess (Fin 5), fadd64 guess (Fin 5))")
  have "s = self"
    using bisection_loop_frame [of ivp tol "nat maxit" self
      "(fsub64 guess (Fin 5), fadd64 guess (Fin 5))"] rs by simp
  with rs show ?thesis
    by (simp add: find_eigenvalue_def Let_def split: sum.splits option.splits)
qed

lemma solve_ivp_with_shooting_pair:
  "solve_ivp_with_shooting ivp self lam slope =
     (fst (solve_ivp_with_shooting ivp self lam slope), self)"
  using solve_ivp_with_shooting_frame [of ivp self lam slope]
  by (metis prod.collapse)

section \<open>The bisection loop\<close>

lemma bisection_body_eq:
  "bisection_body ivp tol self (l, r) =
     (case end_value ivp self (midpoint l r) of
        Inl e \<Rightarrow> Inl e
      | Inr v \<Rightarrow>
          if flt (fabs v) tol then Inr (Inl (midpoint l r))
          else if fgt v (Fin 0) then Inr (Inr (l, midpoint l r))
          else Inr (Inr (midpoint l r, r)), self)"
proof -
  obtain res where res: "solve_ivp_with_shooting ivp self (midpoint l r) (Fin 1) = (res, self)"
    using solve_ivp_with_shooting_pair by blast
  show ?thesis
    using res
    by (simp add: bisection_body_def end_value_def midpoint_def Let_def
        split: sum.splits prod.splits)
qed

lemma bisection_loop_Suc:
  "bisection_loop ivp tol (Suc k) self (l, r) =
     (case end_value ivp self (midpoint l r) of
        Inl e \<Rightarrow> (Inl e, self)
      | Inr v \<Rightarrow>
          if flt (fabs v) tol then (Inr (Some (midpoint l r)), self)
          else if fgt v (Fin 0) then bisection_loop ivp tol k self (l, midpoint l r)
          else bisection_loop ivp tol k self (midpoint l r, r))"
  by (simp add: bisection_body_eq split: sum.splits)

declare bisection_loop.simps(2) [simp del]

lemma find_eigenvalue_eq:
  "find_eigenvalue ivp self guess tol maxit =
     (after_loop guess maxit
        (fst (bisection_loop ivp tol (nat maxit) self (fsub64 guess (Fin 5), fadd64 guess (Fin 5)))),
      self)"
proof -
  obtain res where "bisection_loop ivp tol (nat maxit) self
      (fsub64 guess (Fin 5), fadd64 guess (Fin 5)) = (res, self)"
    using bisection_loop_frame by (metis prod.collapse)
  then show ?thesis
    by (simp add: find_eigenvalue_def after_loop_def Let_def split: sum.splits option.splits)
qed

lemma fle_not_fgt: "fle v (Fin 0) \<Longrightarrow> \<not> fgt v (Fin 0)"
  by (cases v) (auto simp: fgt_def)

lemma find_eigenvalue_fst:
  "fst (find_eigenvalue ivp self guess tol maxit) =
     after_loop guess maxit
       (fst (bisection_loop ivp tol (nat maxit) self (fsub64 guess (Fin 5), fadd64 guess (Fin 5))))"
  by (simp add: find_eigenvalue_eq)

text \<open>
  Claim C2. For every guess, tolerance and iteration cap, \<open>find_eigenvalue\<close> runs its loop from
  the bracket \<open>(guess - 5, guess + 5)\<close>. A pass of the loop with bracket \<open>(l, r)\<close> in which
  \<open>u(end)\<close> at the midpoint is \<open>v\<close> returns the midpoint when \<open>|v| < tolerance\<close>; otherwise it
  goes on with \<open>(l, midpoint)\<close> when \<open>v > 0\<close> and with \<open>(midpoint, r)\<close> when \<open>v \<le> 0\<close>.
\<close>

theorem find_eigenvalue_bisection:
  "fst (find_eigenvalue ivp self guess tol maxit) =
     after_loop guess maxit
       (fst (bisection_loop ivp tol (nat maxit) self (fsub64 guess (Fin 5), fadd64 guess (Fin 5))))
   \<and> (end_value ivp self (midpoint l r) = Inr v \<and> flt (fabs v) tol \<longrightarrow>
        bisection_loop ivp tol (Suc k) self (l, r) = (Inr (Some (midpoint l r)), self))
   \<and> (end_value ivp self (midpoint l r) = Inr v \<and> \<not> flt (fabs v) tol \<and> fgt v (Fin 0) \<longrightarrow>
        bisection_loop ivp tol (Suc k) self (l, r) =
        bisection_loop ivp tol k self (l, midpoint l r))
   \<and> (end_value ivp self (midpoint l r) = Inr v \<and> \<not> flt (fabs v) tol \<and> fle v (Fin 0) \<longrightarrow>
        bisection_loop ivp tol (Suc k) self (l, r) =
        bisection_loop ivp tol k self (midpoint l r, r))"
  by (simp add: find_eigenvalue_fst bisection_loop_Suc fle_not_fgt)

lemma end_value_constant_ivp:
  "end_value (constant_ivp c) two_point_solver lam = Inr c"
  by (simp add: end_value_def solve_ivp_with_shooting_def constant_ivp_def two_point_solver_def
      last_elem_def row_def)

theorem find_eigenvalue_bisection_witness:
  "fst (find_eigenvalue (constant_ivp (Fin 0)) two_point_solver (Fin 1) default_tolerance 3)
     = Inr (Fin 1)
   \<and> bisection_loop (constant_ivp (Fin 1)) default_tolerance (Suc 0) two_point_solver
       (Fin (- 4), Fin 6) = 
     bisection_loop (constant_ivp (Fin 1)) default_tolerance 0 two_point_solver (Fin (- 4), Fin 1)
   \<and> bisection_loop (constant_ivp (Fin (- 1))) default_tolerance (Suc 0) two_point_solver
       (Fin (- 4), Fin 6) = 
     bisection_loop (constant_ivp (Fin (- 1))) default_tolerance 0 two_point_solver (Fin 1, Fin 6)"
proof -
  have m: "midpoint (Fin (- 4)) (Fin 6) = Fin 1"
    by (rule midpoint_small)
  have b: "fsub64 (Fin 1) (Fin 5) = Fin (- 4)" "fadd64 (Fin 1) (Fin 5) = Fin 6"
    by (rule bracket_1)+
  have n3: "nat 3 = Suc 2" by simp
  have t0: "flt (fabs (Fin 0)) default_tolerance"
    and t1: "\<not> flt (fabs (Fin 1)) default_tolerance"
    and t2: "\<not> flt (fabs (Fin (- 1))) default_tolerance"
    by (simp_all add: default_tolerance_def)
  have s: "fgt (Fin 1) (Fin 0)" "fle (Fin (- 1)) (Fin 0)"
    by (simp_all add: fgt_def)
  have c1: "fst (find_eigenvalue (constant_ivp (Fin 0)) two_point_solver (Fin 1) default_tolerance 3)
     = Inr (Fin 1)"
    using find_eigenvalue_bisection [of "constant_ivp (Fin 0)" two_point_solver "Fin 1"
        default_tolerance 3 "Fin (- 4)" "Fin 6" "Fin 0" 2] t0
    by (simp add: m b n3 end_value_constant_ivp after_loop_def)
  have c2: "bisection_loop (constant_ivp (Fin 1)) default_tolerance (Suc 0) two_point_solver
       (Fin (- 4), Fin 6) = 
     bisection_loop (constant_ivp (Fin 1)) default_tolerance 0 two_point_solver (Fin (- 4), Fin 1)"
    using find_eigenvalue_bisection [of "constant_ivp (Fin 1)" two_point_solver "Fin 1"
        default_tolerance 3 "Fin (- 4)" "Fin 6" "Fin 1" 0] t1 s
    by (simp only: m end_value_constant_ivp) simp
  have c3: "bisection_loop (constant_ivp (Fin (- 1))) default_tolerance (Suc 0) two_point_solver
       (Fin (- 4), Fin 6) = 
     bisection_loop (constant_ivp (Fin (- 1))) default_tolerance 0 two_point_solver (Fin 1, Fin 6)"
    using find_eigenvalue_bisection [of "constant_ivp (Fin (- 1))" two_point_solver "Fin 1"
        default_tolerance 3 "Fin (- 4)" "Fin 6" "Fin (- 1)" 0] t2 s
    by (simp only: m end_value_constant_ivp) simp
  show ?thesis using c1 c2 c3 by simp
qed


lemma bisection_loop_exhausted:
  assumes "\<forall>lam. \<exists>v. end_value ivp self lam = Inr v \<and> \<not> flt (fabs v) tol"
  shows "fst (bisection_loop ivp tol k self (l, r)) = Inr None"
proof (induction k arbitrary: l r)
  case 0
  show ?case by simp
next
  case (Suc k)
  obtain v where v: "end_value ivp self (midpoint l r) = Inr v" "\<not> flt (fabs v) tol"
    using assms by blast
  show ?case
    using v Suc.IH by (simp add: bisection_loop_Suc)
qed









section \<open>The loop over the eigenvalues\<close>

lemma find_eigenvalue_pair:
  "find_eigenvalue ivp self guess tol maxit =
     (fst (find_eigenvalue ivp self guess tol maxit), self)"
  using find_eigenvalue_frame [of ivp self guess tol maxit] by (metis prod.collapse)

lemma eigen_body_eq:
  "eigen_body ivp self (g, evs, efs) =
     (case fst (find_eigenvalue ivp self g default_tolerance default_max_iterations) of
        Inl e \<Rightarrow> Inl e
      | Inr lam \<Rightarrow>
          (case fst (solve_ivp_with_shooting ivp self lam (Fin 1)) of
             Inl e \<Rightarrow> Inl e
           | Inr (u, du) \<Rightarrow>
               (case trapezoid (map (\<lambda>v. fpow v 2) u) (x_grid self) of
                  Inl e \<Rightarrow> Inl e
                | Inr integral \<Rightarrow>
                    Inr (fadd64 lam (Fin 5), evs @ [lam],
                         efs @ [map (\<lambda>v. fdiv v (np_sqrt integral)) u]))), self)"
proof -
  obtain r1 where r1: "find_eigenvalue ivp self g default_tolerance default_max_iterations
      = (r1, self)"
    using find_eigenvalue_pair by blast
  show ?thesis
  proof (cases r1)
    case (Inl e)
    with r1 show ?thesis by (simp add: eigen_body_def)
  next
    case (Inr lam)
    obtain r2 where r2: "solve_ivp_with_shooting ivp self lam (Fin 1) = (r2, self)"
      using solve_ivp_with_shooting_pair by blast
    show ?thesis
      using r1 Inr r2
      by (simp add: eigen_body_def Let_def split: sum.splits prod.splits)
  qed
qed

lemma eigen_body_frame: "snd (eigen_body ivp self st) = self"
  by (cases st) (simp add: eigen_body_eq)

lemma eigen_loop_frame: "snd (eigen_loop ivp k self st) = self"
proof (induction k arbitrary: st)
  case 0
  show ?case by simp
next
  case (Suc k)
  obtain r where r: "eigen_body ivp self st = (r, self)"
    using eigen_body_frame [of ivp self st] by (metis prod.collapse)
  show ?case
    using r Suc.IH by (simp split: sum.splits)
qed

lemma eigen_loop_Suc:
  "eigen_loop ivp (Suc k) self st =
     (case fst (eigen_body ivp self st) of
        Inl e \<Rightarrow> (Inl e, self)
      | Inr st' \<Rightarrow> eigen_loop ivp k self st')"
proof -
  obtain r where r: "eigen_body ivp self st = (r, self)"
    using eigen_body_frame [of ivp self st] by (metis prod.collapse)
  then show ?thesis by (simp split: sum.splits)
qed

declare eigen_loop.simps(2) [simp del]

lemma find_multiple_eigenvalues_eq:
  "find_multiple_eigenvalues ivp self n =
     (case fst (eigen_loop ivp (nat n) self (Fin 1, [], [])) of
        Inl e \<Rightarrow> Inl e
      | Inr (g, evs, efs) \<Rightarrow>
          (case np_array2 efs of Inl e \<Rightarrow> Inl e | Inr arr \<Rightarrow> Inr (evs, arr)), self)"
proof -
  obtain r where r: "eigen_loop ivp (nat n) self (Fin 1, [], []) = (r, self)"
    using eigen_loop_frame [of ivp "nat n" self] by (metis prod.collapse)
  then show ?thesis
    by (simp add: find_multiple_eigenvalues_def split: sum.splits prod.splits)
qed

lemma find_multiple_eigenvalues_frame: "snd (find_multiple_eigenvalues ivp self n) = self"
  by (simp add: find_multiple_eigenvalues_eq)

lemma np_array2_Inr: "np_array2 rows = Inr arr \<Longrightarrow> arr = rows"
  by (simp add: np_array2_def split: if_splits)

lemma eigen_loop_lengths:
  assumes "fst (eigen_loop ivp k self (g, evs, efs)) = Inr (g', evs', efs')"
  shows "length evs' = length evs + k \<and> length efs' = length efs + k"
  using assms
proof (induction k arbitrary: g evs efs)
  case 0
  then show ?case by simp
next
  case (Suc k)
  from Suc.prems obtain g1 lam u' where
    l: "fst (eigen_loop ivp k self (g1, evs @ [lam], efs @ [u'])) = Inr (g', evs', efs')"
    by (auto simp: eigen_loop_Suc eigen_body_eq split: sum.splits prod.splits)
  from Suc.IH [OF l] show ?case by simp
qed

lemma fpow_2: "fpow a 2 = fmul a a"
  by (simp add: numeral_2_eq_2)

lemma find_eigenvalue_first_pass:
  assumes "midpoint (fsub64 g (Fin 5)) (fadd64 g (Fin 5)) = m"
    and "end_value ivp self m = Inr v" and "flt (fabs v) tol" and "0 < maxit"
  shows "fst (find_eigenvalue ivp self g tol maxit) = Inr m"
proof -
  obtain k where k: "nat maxit = Suc k"
    using assms(4) by (metis Suc_pred' zero_less_nat_eq)
  show ?thesis
    using assms(1,2,3) by (simp add: find_eigenvalue_fst k bisection_loop_Suc after_loop_def)
qed

lemma first_pass_1: "midpoint (fsub64 (Fin 1) (Fin 5)) (fadd64 (Fin 1) (Fin 5)) = Fin 1"
  by (simp add: bracket_1 midpoint_small)


section \<open>Every eigenvalue lies in the bracket of its search\<close>










section \<open>Normalization\<close>






















section \<open>A bracket that collapses onto its left bound\<close>






section \<open>An integrator that ends on zero at one value only\<close>

lemma fpow_4: "fpow a 4 = fmul a (fmul a (fmul a a))"
  by (simp add: eval_nat_numeral)

lemma fpow_3: "fpow a 3 = fmul a (fmul a a)"
  by (simp add: eval_nat_numeral)

lemma guarded_sin_0: "guarded_sin (Fin 0) = Fin (1 / 10 ^ 10)"
  by (simp add: guarded_sin_def sin_floor_def)

lemma probe_value:
  assumes "m_mode self = 1"
  shows "snd (fst (equation_system self (Fin 0) (Fin 1, Fin 0) (Fin lam)))
     = Fin (10 ^ 20 - 2 * 10 ^ 10 - 2 * lam)"
  using assms
  by (simp add: equation_system_def coeff_p_def coeff_q_def coeff_r_def guarded_sin_0
      fpow_2 fpow_3 fpow_4 fsub_def field_simps)

lemma shot_picky_ivp:
  assumes "m_mode self = 1"
  shows "fst (solve_ivp_with_shooting (picky_ivp c) self (Fin lam) slope)
     = Inr (replicate (length (x_grid self)) (if lam = 1 then Fin 0 else c),
            replicate (length (x_grid self)) (Fin 0))"
  by (simp add: solve_ivp_with_shooting_def picky_ivp_def probe_value [OF assms] row_def
      map_replicate_const)

lemma end_value_picky_ivp:
  assumes "m_mode self = 1" and "x_grid self \<noteq> []"
  shows "end_value (picky_ivp c) self (Fin lam) = Inr (if lam = 1 then Fin 0 else c)"
  using assms(2) by (simp add: end_value_def shot_picky_ivp [OF assms(1)] last_elem_def)

lemma find_eigenvalue_picky_ivp:
  assumes "m_mode self = 1" and "x_grid self \<noteq> []"
  shows "fst (find_eigenvalue (picky_ivp c) self (Fin 1)
      default_tolerance default_max_iterations) = Inr (Fin 1)"
  by (rule find_eigenvalue_first_pass [OF first_pass_1 end_value_picky_ivp [OF assms]])
     (simp_all add: default_tolerance_def default_max_iterations_def)

lemma np_sum_zero:
  assumes "\<forall>p \<in> set ps. p = Fin 0"
  shows "np_sum (map (\<lambda>p. fdiv p (Fin 2)) ps) = Fin 0"
  using assms by (induction ps) simp_all

lemma butlast_replicate_eq: "butlast (replicate n v) = replicate (n - 1) v"
proof (induction n)
  case 0
  show ?case by simp
next
  case (Suc n)
  then show ?case by (cases n) simp_all
qed

lemma adjacent_sums_zero:
  "adjacent_sums (replicate n (Fin 0)) = replicate (n - 1) (Fin 0)"
  by (simp add: adjacent_sums_def butlast_replicate_eq zip_replicate map_replicate_const)

lemma trapezoid_zero:
  assumes "\<forall>x \<in> set xs. is_finite x"
  shows "trapezoid (replicate (length xs) (Fin 0)) xs = Inr (Fin 0)"
proof -
  have d: "is_finite d" if "d \<in> set (np_diff xs)" for d
  proof -
    from that obtain a b where
      ab: "(a, b) \<in> set (zip (tl xs) (butlast xs))" and "d = fsub a b"
      by (auto simp: np_diff_def)
    moreover have "a \<in> set xs"
      using set_zip_leftD [OF ab] by (cases xs) auto
    moreover have "b \<in> set xs"
      using set_zip_rightD [OF ab] by (rule in_set_butlastD)
    ultimately have "d = fsub a b" "is_finite a" "is_finite b"
      using assms by auto
    then show ?thesis
      by (cases a; cases b) (simp_all add: fsub_def)
  qed
  note z = adjacent_sums_zero [of "length xs"]
  have b: "broadcast2 fmul (np_diff xs) (adjacent_sums (replicate (length xs) (Fin 0)))
      = Inr (map2 fmul (np_diff xs) (replicate (length xs - 1) (Fin 0)))"
    by (simp add: broadcast2_def z np_diff_def)
  have "p = Fin 0" if "p \<in> set (map2 fmul (np_diff xs) (replicate (length xs - 1) (Fin 0)))" for p
  proof -
    from that obtain a b where
      ab: "(a, b) \<in> set (zip (np_diff xs) (replicate (length xs - 1) (Fin 0)))"
      and p: "p = fmul a b"
      by auto
    have "a \<in> set (np_diff xs)" using set_zip_leftD [OF ab] .
    moreover have "b = Fin 0" using set_zip_rightD [OF ab] by simp
    ultimately have "a \<in> set (np_diff xs)" "p = fmul a (Fin 0)" using p by simp_all
    with d [of a] show ?thesis by (cases a) simp_all
  qed
  then have "\<forall>p \<in> set (map2 fmul (np_diff xs) (replicate (length xs - 1) (Fin 0))). p = Fin 0"
    by blast
  from np_sum_zero [OF this] show ?thesis
    by (simp only: trapezoid_def b sum.case)
qed

lemma eigen_body_picky_ivp:
  assumes "m_mode self = 1" and "\<forall>x \<in> set (x_grid self). is_finite x"
    and "fst (find_eigenvalue (picky_ivp c) self g
      default_tolerance default_max_iterations) = Inr (Fin 1)"
  shows "fst (eigen_body (picky_ivp c) self (g, evs, efs))
     = Inr (Fin 6, evs @ [Fin 1], efs @ [replicate (length (x_grid self)) NaN])"
  by (simp add: eigen_body_eq assms(3) shot_picky_ivp [OF assms(1)] fpow_2
      trapezoid_zero [OF assms(2)] bracket_1)

lemma two_point_solver_grid:
  "m_mode two_point_solver = 1" "x_grid two_point_solver \<noteq> []"
  "\<forall>x \<in> set (x_grid two_point_solver). is_finite x"
  "replicate (length (x_grid two_point_solver)) v = [v, v]"
  by (simp_all add: two_point_solver_def)


lemma first_pass_picky_ivp:
  "fst (eigen_loop (picky_ivp c) (Suc 0) two_point_solver (Fin 1, [], []))
     = Inr (Fin 6, [Fin 1], [[NaN, NaN]])"
  by (simp add: eigen_loop_Suc two_point_solver_grid(4)
      eigen_body_picky_ivp [OF two_point_solver_grid(1,3)
        find_eigenvalue_picky_ivp [OF two_point_solver_grid(1,2)]])

section \<open>Eigenvalues that are not strictly increasing\<close>







section \<open>A failed search ends the run\<close>

lemma eigen_loop_add:
  "eigen_loop ivp (i + j) self st =
     (case fst (eigen_loop ivp i self st) of
        Inl e \<Rightarrow> (Inl e, self)
      | Inr st' \<Rightarrow> eigen_loop ivp j self st')"
proof (induction i arbitrary: st)
  case 0
  show ?case by simp
next
  case (Suc i)
  show ?case
    by (simp add: eigen_loop_Suc Suc.IH split: sum.splits)
qed

text \<open>
  Claim C6. When the first \<open>i\<close> passes of the loop of \<open>find_multiple_eigenvalues\<close> have
  found their eigenpairs and the search of pass \<open>i\<close> raises, \<open>find_multiple_eigenvalues\<close>
  raises that same exception: it returns no value, so no partial sequence, and it does not
  go on to a later index. A call that returns gives as many eigenvalues and as many
  eigenfunctions as were asked for: no index is skipped.
\<close>

theorem search_failure_propagates:
  assumes "fst (eigen_loop ivp i self (Fin 1, [], [])) = Inr (g, evs, efs)"
    and "i < nat n"
    and "fst (find_eigenvalue ivp self g default_tolerance default_max_iterations) = Inl e"
  shows "fst (find_multiple_eigenvalues ivp self n) = Inl e
    \<and> (fst (find_multiple_eigenvalues ivp self k) = Inr (evs', efs') \<longrightarrow>
         length evs' = nat k \<and> length efs' = nat k)"
proof -
  have full: "length evs' = nat k \<and> length efs' = nat k"
    if "fst (find_multiple_eigenvalues ivp self k) = Inr (evs', efs')"
  proof -
    from that obtain g' where
      "fst (eigen_loop ivp (nat k) self (Fin 1, [], [])) = Inr (g', evs', efs')"
      by (auto simp: find_multiple_eigenvalues_eq dest: np_array2_Inr
          split: sum.splits prod.splits)
    from eigen_loop_lengths [OF this] show ?thesis by simp
  qed
  from less_imp_Suc_add [OF assms(2)] obtain j where "nat n = Suc (i + j)" ..
  then have n: "nat n = i + Suc j" by simp
  have "fst (eigen_body ivp self (g, evs, efs)) = Inl e"
    using assms(3) by (simp add: eigen_body_eq)
  then have "fst (eigen_loop ivp (Suc j) self (g, evs, efs)) = Inl e"
    by (simp add: eigen_loop_Suc)
  moreover have "eigen_loop ivp (nat n) self (Fin 1, [], [])
      = eigen_loop ivp (Suc j) self (g, evs, efs)"
    unfolding n by (subst eigen_loop_add) (simp add: assms(1))
  ultimately have "fst (eigen_loop ivp (nat n) self (Fin 1, [], [])) = Inl e"
    by simp
  then have "fst (find_multiple_eigenvalues ivp self n) = Inl e"
    by (simp add: find_multiple_eigenvalues_eq)
  with full show ?thesis by blast
qed

lemma bisection_loop_exhausted_on:
  assumes "\<forall>x. l \<le> x \<and> x \<le> r \<longrightarrow>
      (\<exists>v. end_value ivp self (Fin x) = Inr v \<and> \<not> flt (fabs v) tol)"
    and "is_double l" and "is_double r" and "l \<le> r"
    and "\<bar>l\<bar> \<le> 2 ^ 1022" and "\<bar>r\<bar> \<le> 2 ^ 1022"
  shows "fst (bisection_loop ivp tol k self (Fin l, Fin r)) = Inr None"
  using assms
proof (induction k arbitrary: l r)
  case 0
  show ?case by simp
next
  case (Suc k)
  from midpoint_between [OF Suc.prems(2-6)] obtain c where
    c: "midpoint (Fin l) (Fin r) = Fin c" "l \<le> c" "c \<le> r" "is_double c"
    by blast
  have cb: "\<bar>c\<bar> \<le> 2 ^ 1022"
    using c(2,3) Suc.prems(5,6) by linarith
  from Suc.prems(1) c(2,3) obtain v where
    v: "end_value ivp self (Fin c) = Inr v" "\<not> flt (fabs v) tol"
    by blast
  have 1: "fst (bisection_loop ivp tol k self (Fin l, Fin c)) = Inr None"
    using Suc.prems(1) c(3) by (intro Suc.IH [OF _ Suc.prems(2) c(4) c(2) Suc.prems(5) cb]) auto
  have 2: "fst (bisection_loop ivp tol k self (Fin c, Fin r)) = Inr None"
    using Suc.prems(1) c(2) by (intro Suc.IH [OF _ c(4) Suc.prems(3) c(3) cb Suc.prems(6)]) auto
  show ?case
    using v 1 2 by (simp add: bisection_loop_Suc c(1))
qed

lemma second_search_picky_ivp:
  "fst (find_eigenvalue (picky_ivp (Fin (- 1))) two_point_solver (Fin 6)
      default_tolerance default_max_iterations) = Inl (ConvergenceError (Fin 6) 100)"
proof -
  have d6: "is_double 6" using is_double_of_int [of 6] by simp
  have d11: "is_double 11" using is_double_of_int [of 11] by simp
  have b: "(11 :: real) \<le> 2 ^ 1022"
  proof -
    have "(11 :: real) \<le> 2 ^ 4" by simp
    also have "\<dots> \<le> (2 :: real) ^ 1022" by (intro power_increasing) simp_all
    finally show ?thesis .
  qed
  have "fst (bisection_loop (picky_ivp (Fin (- 1))) default_tolerance 99
      two_point_solver (Fin 6, Fin 11)) = Inr None"
    by (rule bisection_loop_exhausted_on [OF _ d6 d11])
       (use b in \<open>simp_all add: end_value_picky_ivp [OF two_point_solver_grid(1,2)]
          default_tolerance_def\<close>)
  moreover have "fst (bisection_loop (picky_ivp (Fin (- 1))) default_tolerance (Suc 99)
        two_point_solver (Fin 1, Fin 11))
      = fst (bisection_loop (picky_ivp (Fin (- 1))) default_tolerance 99
        two_point_solver (Fin 6, Fin 11))"
    by (subst bisection_loop_Suc)
       (simp add: midpoint_small end_value_picky_ivp [OF two_point_solver_grid(1,2)]
          default_tolerance_def fgt_def)
  moreover have "nat default_max_iterations = Suc 99"
    by (simp add: default_max_iterations_def)
  ultimately have "fst (bisection_loop (picky_ivp (Fin (- 1))) default_tolerance
      (nat default_max_iterations) two_point_solver (Fin 1, Fin 11)) = Inr None"
    by (simp only:)
  then show ?thesis
    by (simp add: find_eigenvalue_fst bracket_6 after_loop_def)
       (simp add: default_max_iterations_def)
qed

theorem search_failure_propagates_witness:
  "fst (eigen_loop (picky_ivp (Fin (- 1))) (Suc 0) two_point_solver (Fin 1, [], []))
     = Inr (Fin 6, [Fin 1], [[NaN, NaN]])
   \<and> Suc 0 < nat 2
   \<and> fst (find_eigenvalue (picky_ivp (Fin (- 1))) two_point_solver (Fin 6)
        default_tolerance default_max_iterations) = Inl (ConvergenceError (Fin 6) 100)
   \<and> fst (find_multiple_eigenvalues (picky_ivp (Fin (- 1))) two_point_solver 2)
       = Inl (ConvergenceError (Fin 6) 100)
   \<and> fst (find_multiple_eigenvalues (picky_ivp (Fin (- 1))) two_point_solver 1)
       = Inr ([Fin 1], [[NaN, NaN]])
   \<and> length [Fin 1 :: pyfloat] = nat 1 \<and> length [[NaN, NaN :: pyfloat]] = nat 1"
proof -
  have n: "Suc 0 < nat 2" by simp
  have one: "fst (find_multiple_eigenvalues (picky_ivp (Fin (- 1))) two_point_solver 1)
      = Inr ([Fin 1], [[NaN, NaN]])"
    using first_pass_picky_ivp [of "Fin (- 1)"]
    by (simp add: find_multiple_eigenvalues_eq np_array2_def)
  from search_failure_propagates [OF first_pass_picky_ivp n second_search_picky_ivp,
      of 1 "[Fin 1]" "[[NaN, NaN]]"]
  show ?thesis
    using first_pass_picky_ivp [of "Fin (- 1)"] second_search_picky_ivp n one by simp
qed

section \<open>A failed integration\<close>

lemma shot_replay_ivp:
  "fst (solve_ivp_with_shooting (replay_ivp ok us dus) self lam slope) = Inr (us, dus)"
  by (simp add: solve_ivp_with_shooting_def replay_ivp_def row_def)

text \<open>
  Claim C1, as stated, does not hold. An integrator returns a solution object whose success
  flag is false and whose \<open>u\<close> is \<open>nan\<close>: \<open>solve_ivp_with_shooting\<close> returns these rows as if
  nothing had happened, the \<open>nan\<close> is the end value the eigenvalue search compares, the
  search ends with the convergence error and not with an integration error, and
  \<open>find_multiple_eigenvalues\<close> returns an eigenfunction made of \<open>nan\<close>.
\<close>

theorem integration_failure_not_reported:
  "failed_ivp (\<lambda>t y. fst (equation_system two_point_solver t y (Fin 1)))
       (x_start two_point_solver, x_end two_point_solver) (Fin 0, Fin 1)
       (x_grid two_point_solver)
     = Inr \<lparr>success = False, sol_y = [[NaN], [NaN]]\<rparr>
   \<and> fst (solve_ivp_with_shooting failed_ivp two_point_solver (Fin 1) (Fin 1)) = Inr ([NaN], [NaN])
   \<and> end_value failed_ivp two_point_solver (Fin 1) = Inr NaN
   \<and> fst (find_eigenvalue failed_ivp two_point_solver (Fin 1) default_tolerance 3)
       = Inl (ConvergenceError (Fin 1) 3)
   \<and> fst (find_multiple_eigenvalues failed_ivp2 two_point_solver 1)
       = Inr ([Fin 1], [[NaN, NaN]])"
proof -
  have 1: "failed_ivp (\<lambda>t y. fst (equation_system two_point_solver t y (Fin 1)))
       (x_start two_point_solver, x_end two_point_solver) (Fin 0, Fin 1)
       (x_grid two_point_solver)
     = Inr \<lparr>success = False, sol_y = [[NaN], [NaN]]\<rparr>"
    by (simp add: failed_ivp_def replay_ivp_def)
  have 2: "fst (solve_ivp_with_shooting failed_ivp two_point_solver (Fin 1) (Fin 1))
      = Inr ([NaN], [NaN])"
    by (simp add: failed_ivp_def shot_replay_ivp)
  have ev: "end_value failed_ivp two_point_solver lam = Inr NaN" for lam
    by (simp add: end_value_def failed_ivp_def shot_replay_ivp last_elem_def)
  have "\<forall>lam. \<exists>v. end_value failed_ivp two_point_solver lam = Inr v
      \<and> \<not> flt (fabs v) default_tolerance"
    by (simp add: ev)
  from bisection_loop_exhausted [OF this]
  have 4: "fst (find_eigenvalue failed_ivp two_point_solver (Fin 1) default_tolerance 3)
       = Inl (ConvergenceError (Fin 1) 3)"
    by (simp add: find_eigenvalue_fst after_loop_def)
  have ev2: "end_value failed_ivp2 two_point_solver (Fin 1) = Inr (Fin 0)"
    by (simp add: end_value_def failed_ivp2_def shot_replay_ivp last_elem_def)
  have f: "fst (find_eigenvalue failed_ivp2 two_point_solver (Fin 1)
      default_tolerance default_max_iterations) = Inr (Fin 1)"
    by (rule find_eigenvalue_first_pass [OF first_pass_1 ev2])
       (simp_all add: default_tolerance_def default_max_iterations_def)
  have t: "trapezoid [NaN, Fin 0] [Fin 0, Fin 2] = Inr NaN"
    by (simp add: trapezoid_def np_diff_def adjacent_sums_def broadcast2_def fsub_def)
  have 5: "fst (find_multiple_eigenvalues failed_ivp2 two_point_solver 1)
       = Inr ([Fin 1], [[NaN, NaN]])"
    by (simp add: find_multiple_eigenvalues_eq eigen_loop_Suc eigen_body_eq f fpow_2
        np_array2_def)
       (simp add: failed_ivp2_def shot_replay_ivp two_point_solver_def t fpow_2 np_array2_def)
  show ?thesis using 1 2 ev 4 5 by simp
qed

text \<open>
  Claim C1, amended. \<open>solve_ivp_with_shooting\<close> looks neither at the success flag nor at
  the values of the solution object. When \<open>solve_ivp\<close> returns an object whose \<open>y\<close> has at
  least two rows, the function returns the rows \<open>y[0]\<close> and \<open>y[1]\<close> unchanged, whatever the
  flag and whether or not the values are finite. When \<open>y\<close> has fewer than two rows, as after
  an integration that failed before its first output point, the indexing raises
  \<open>IndexError\<close>. What \<open>solve_ivp\<close> itself raises goes to the caller. There is no
  integration error of its own kind.
\<close>

theorem solve_ivp_with_shooting_unchecked:
  "(ivp (\<lambda>t y. fst (equation_system self t y lam)) (x_start self, x_end self) (Fin 0, slope)
        (x_grid self) = Inr sol \<and> 2 \<le> length (sol_y sol) \<longrightarrow>
      fst (solve_ivp_with_shooting ivp self lam slope) = Inr (sol_y sol ! 0, sol_y sol ! 1))
   \<and> (ivp (\<lambda>t y. fst (equation_system self t y lam)) (x_start self, x_end self) (Fin 0, slope)
        (x_grid self) = Inr sol \<and> length (sol_y sol) < 2 \<longrightarrow>
      fst (solve_ivp_with_shooting ivp self lam slope) = Inl IndexError)
   \<and> (ivp (\<lambda>t y. fst (equation_system self t y lam)) (x_start self, x_end self) (Fin 0, slope)
        (x_grid self) = Inl e \<longrightarrow>
      fst (solve_ivp_with_shooting ivp self lam slope) = Inl e)"
  by (auto simp: solve_ivp_with_shooting_def row_def)

theorem solve_ivp_with_shooting_unchecked_witness:
  "fst (solve_ivp_with_shooting failed_ivp two_point_solver (Fin 1) (Fin 1)) = Inr ([NaN], [NaN])
   \<and> fst (solve_ivp_with_shooting empty_ivp two_point_solver (Fin 1) (Fin 1)) = Inl IndexError
   \<and> fst (solve_ivp_with_shooting raising_ivp two_point_solver (Fin 1) (Fin 1))
       = Inl (IntegratorRaised ''solve_ivp'')"
proof -
  have a: "failed_ivp (\<lambda>t y. fst (equation_system two_point_solver t y (Fin 1)))
       (x_start two_point_solver, x_end two_point_solver) (Fin 0, Fin 1)
       (x_grid two_point_solver)
     = Inr \<lparr>success = False, sol_y = [[NaN], [NaN]]\<rparr>"
    by (simp add: failed_ivp_def replay_ivp_def)
  have b: "raising_ivp (\<lambda>t y. fst (equation_system two_point_solver t y (Fin 1)))
       (x_start two_point_solver, x_end two_point_solver) (Fin 0, Fin 1)
       (x_grid two_point_solver)
     = Inl (IntegratorRaised ''solve_ivp'')"
    by (simp add: raising_ivp_def)
  have c: "empty_ivp (\<lambda>t y. fst (equation_system two_point_solver t y (Fin 1)))
       (x_start two_point_solver, x_end two_point_solver) (Fin 0, Fin 1)
       (x_grid two_point_solver)
     = Inr \<lparr>success = False, sol_y = []\<rparr>"
    by (simp add: empty_ivp_def)
  show ?thesis
    using solve_ivp_with_shooting_unchecked [of failed_ivp two_point_solver "Fin 1" "Fin 1"
        "\<lparr>success = False, sol_y = [[NaN], [NaN]]\<rparr>"]
      solve_ivp_with_shooting_unchecked [of empty_ivp two_point_solver "Fin 1" "Fin 1"
        "\<lparr>success = False, sol_y = []\<rparr>"]
      solve_ivp_with_shooting_unchecked [of raising_ivp two_point_solver "Fin 1" "Fin 1" _
        "IntegratorRaised ''solve_ivp''"] a b c
    by simp
qed

section \<open>The guard of equation_system\<close>

lemma init_m_mode: "init a b n = Inr self \<Longrightarrow> m_mode self = 1"
  by (auto simp: init_def split: sum.splits)

lemma guarded_sin_not_zero: "\<not> fiszero (guarded_sin t)"
proof (cases t)
  case (Fin a)
  show ?thesis
  proof (cases "\<bar>sin a\<bar> < 1 / 10 ^ 10")
    case True
    with Fin show ?thesis by (simp add: guarded_sin_def sin_floor_def)
  next
    case False
    then have "sin a \<noteq> 0" by auto
    with False Fin show ?thesis by (simp add: guarded_sin_def sin_floor_def)
  qed
qed (simp_all add: guarded_sin_def sin_floor_def)

lemma square_not_zero:
  assumes "\<not> fiszero g"
  shows "\<not> fiszero (fmul (Fin 2) (fpow g 2))"
  using assms by (cases g) (simp_all add: fpow_2)

text \<open>
  Claim C7. For every \<open>x\<close>, state \<open>(u, u')\<close> and \<open>lambda\<close>: \<open>equation_system\<close> uses, in place of
  \<open>sin(x)\<close>, the floor \<open>1e-10\<close> whenever \<open>|sin(x)| < 1e-10\<close>; the two divisors built from it,
  \<open>sin_x\<close> in the damping coefficient \<open>q\<close> and in the potential coefficient \<open>r\<close>, and
  \<open>2 * sin_x ** 2\<close> in \<open>r\<close>, are never zero; the call leaves the solver as it was, and its
  value depends on the solver through \<open>self.m\<close> only, which is 1 on every solver the
  constructor builds: the value is a function of \<open>(x, state, lambda)\<close>.
\<close>

theorem equation_system_guard:
  "(flt (fabs (np_sin t)) sin_floor \<longrightarrow> guarded_sin t = sin_floor)
   \<and> (\<not> flt (fabs (np_sin t)) sin_floor \<longrightarrow> guarded_sin t = np_sin t)
   \<and> coeff_q t = fmul (Fin (- (1 / 2)))
        (fdiv (fmul (fpow (np_cos t) 3) (np_cos (fmul (Fin 2) t))) (guarded_sin t))
   \<and> coeff_r self t = fsub
        (fdiv (fmul (Fin (of_int ((m_mode self)\<^sup>2))) (fpow (np_cos t) 2))
              (fmul (Fin 2) (fpow (guarded_sin t) 2)))
        (fdiv (np_cos t) (guarded_sin t))
   \<and> \<not> fiszero (guarded_sin t)
   \<and> \<not> fiszero (fmul (Fin 2) (fpow (guarded_sin t) 2))
   \<and> equation_system self t (u, du) lam =
       ((du, fdiv (fsub (fmul (fneg (coeff_q t)) du) (fmul (fsub (coeff_r self t) lam) u))
               (coeff_p t)), self)
   \<and> (m_mode self' = m_mode self \<longrightarrow>
        fst (equation_system self' t y lam) = fst (equation_system self t y lam))
   \<and> (init a b n = Inr self \<and> init a' b' n' = Inr self' \<longrightarrow>
        fst (equation_system self' t y lam) = fst (equation_system self t y lam))"
proof -
  have "guarded_sin t = sin_floor" if "flt (fabs (np_sin t)) sin_floor"
    using that by (simp add: guarded_sin_def)
  moreover have "guarded_sin t = np_sin t" if "\<not> flt (fabs (np_sin t)) sin_floor"
    using that by (simp add: guarded_sin_def)
  moreover have m: "fst (equation_system self' t y lam) = fst (equation_system self t y lam)"
    if "m_mode self' = m_mode self"
    using that by (cases y) (simp add: equation_system_def coeff_r_def)
  moreover have "fst (equation_system self' t y lam) = fst (equation_system self t y lam)"
    if "init a b n = Inr self" "init a' b' n' = Inr self'"
    using that by (intro m) (simp add: init_m_mode)
  moreover have "equation_system self t (u, du) lam =
       ((du, fdiv (fsub (fmul (fneg (coeff_q t)) du) (fmul (fsub (coeff_r self t) lam) u))
               (coeff_p t)), self)"
    by (simp add: equation_system_def)
  ultimately show ?thesis
    using guarded_sin_not_zero [of t] square_not_zero [OF guarded_sin_not_zero [of t]]
    by (simp add: coeff_q_def coeff_r_def)
qed

theorem equation_system_guard_witness:
  "flt (fabs (np_sin (Fin 0))) sin_floor \<and> guarded_sin (Fin 0) = sin_floor
   \<and> \<not> flt (fabs (np_sin (Fin (pi / 2)))) sin_floor
   \<and> guarded_sin (Fin (pi / 2)) = np_sin (Fin (pi / 2))
   \<and> m_mode (two_point_solver\<lparr>num_points := 5\<rparr>) = m_mode two_point_solver
   \<and> fst (equation_system (two_point_solver\<lparr>num_points := 5\<rparr>) (Fin 0) (Fin 1, Fin 0) (Fin 1))
     = fst (equation_system two_point_solver (Fin 0) (Fin 1, Fin 0) (Fin 1))
   \<and> init (Fin 0) (Fin 2) 2 = Inr two_point_solver
   \<and> init (Fin 0) (Fin 1) 1 =
       Inr \<lparr>x_start = Fin 0, x_end = Fin 1, num_points = 1, x_grid = [Fin 0], m_mode = 1\<rparr>
   \<and> fst (equation_system
         \<lparr>x_start = Fin 0, x_end = Fin 1, num_points = 1, x_grid = [Fin 0], m_mode = 1\<rparr>
         (Fin 0) (Fin 1, Fin 0) (Fin 1))
     = fst (equation_system two_point_solver (Fin 0) (Fin 1, Fin 0) (Fin 1))"
proof -
  have a: "flt (fabs (np_sin (Fin 0))) sin_floor"
    by (simp add: sin_floor_def)
  have b: "\<not> flt (fabs (np_sin (Fin (pi / 2)))) sin_floor"
    by (simp add: sin_floor_def)
  have c: "m_mode (two_point_solver\<lparr>num_points := 5\<rparr>) = m_mode two_point_solver"
    by simp
  have d: "init (Fin 0) (Fin 2) 2 = Inr two_point_solver"
    by (simp add: init_def linspace_def fsub_def two_point_solver_def)
  have e: "init (Fin 0) (Fin 1) 1 =
       Inr \<lparr>x_start = Fin 0, x_end = Fin 1, num_points = 1, x_grid = [Fin 0], m_mode = 1\<rparr>"
    by (simp add: init_def linspace_def fsub_def)
  show ?thesis
    using equation_system_guard [where t = "Fin 0" and self = two_point_solver
        and self' = "two_point_solver\<lparr>num_points := 5\<rparr>" and y = "(Fin 1, Fin 0)"
        and lam = "Fin 1"]
      equation_system_guard [where t = "Fin 0" and self = two_point_solver
        and self' = "\<lparr>x_start = Fin 0, x_end = Fin 1, num_points = 1, x_grid = [Fin 0],
          m_mode = 1\<rparr>" and y = "(Fin 1, Fin 0)" and lam = "Fin 1"
        and a = "Fin 0" and b = "Fin 2" and n = 2 and a' = "Fin 0" and b' = "Fin 1" and n' = 1]
      equation_system_guard [where t = "Fin (pi / 2)"] a b c d e
    by simp
qed

section \<open>The solver object after a call\<close>

text \<open>
  Claim C9. Each operation returns the solver object it was called on: all five fields
  \<open>x_start\<close>, \<open>x_end\<close>, \<open>num_points\<close>, \<open>x\<close> and \<open>m\<close> are as they were before the call, also
  when the call raises.
\<close>

theorem solver_fields_unchanged:
  "snd (equation_system self t y lam) = self
   \<and> snd (solve_ivp_with_shooting ivp self lam slope) = self
   \<and> snd (find_eigenvalue ivp self guess tol maxit) = self
   \<and> snd (find_multiple_eigenvalues ivp self n) = self"
  by (simp add: equation_system_frame solve_ivp_with_shooting_frame find_eigenvalue_frame
      find_multiple_eigenvalues_frame)

end
